theory Spec2Isabelle
  imports Main "HOL-Library.AList"
begin

unbundle bit_operations_syntax

section \<open>Values of the runtime\<close>

text \<open>
  The model follows \<^verbatim>\<open>lib/dht/node.js\<close>. A \<^verbatim>\<open>Buffer\<close> is a list of bytes, each a
  natural number below 256 (every write reduces modulo 256). Property keys of
  plain objects are strings; a Buffer used as a property key is converted by the runtime's
  \<^verbatim>\<open>Buffer.prototype.toString()\<close> (UTF-8 decoding), which is not part of the repository and
  is not injective on arbitrary bytes. It is therefore a parameter \<open>ts\<close> of every function
  that stores a contact under its id.
\<close>

type_synonym buffer = "nat list"

datatype error = TypeError | ReferenceError | RangeError

text \<open>
  \<^verbatim>\<open>Bucket.compare\<close> is called with Buffers and, inside \<^verbatim>\<open>split\<close>, with the string keys
  returned by \<^verbatim>\<open>Object.keys\<close>; both kinds of argument are values of \<open>jsval\<close>.
\<close>

datatype jsval = Buf buffer | Str string

fun js_length :: "jsval \<Rightarrow> nat" where
  "js_length (Buf b) = length b"
| "js_length (Str s) = length s"

text \<open>
  \<^verbatim>\<open>readUInt16BE(i)\<close>: two bytes, big endian. A string has no such method (calling it
  is a TypeError), and a read beyond the end of a Buffer throws.
\<close>

fun readUInt16BE :: "jsval \<Rightarrow> nat \<Rightarrow> error + int" where
  "readUInt16BE (Buf b) i =
     (if i + 1 < length b then Inr (256 * int (b ! i) + int (b ! (i + 1)))
      else Inl RangeError)"
| "readUInt16BE (Str s) i = Inl TypeError"

text \<open>
  \<^verbatim>\<open>writeUInt16BE(v, i)\<close>. Every call of the source writes a value below \<open>2^16\<close> at an
  offset inside the Buffer.
\<close>

definition writeUInt16BE :: "buffer \<Rightarrow> int \<Rightarrow> nat \<Rightarrow> buffer" where
  "writeUInt16BE b v i = (b[i := nat (v div 256 mod 256)])[i + 1 := nat (v mod 256)]"

section \<open>Bucket ranges\<close>

text \<open>
  \<^verbatim>\<open>
  Bucket.compare = function compare(a, b) {
    for (var i = 0; i < a.length; i += 2) {
      var aword = a.readUInt16BE(i), bword = b.readUInt16BE(i);
      if (aword === bword) continue;
      return aword > bword ? 1 : -1;
    }
    return 0;
  };
  \<close>
\<close>

function compare_from :: "jsval \<Rightarrow> jsval \<Rightarrow> nat \<Rightarrow> error + int" where
  "compare_from a b i =
     (if i < js_length a then
        (case readUInt16BE a i of
           Inl e \<Rightarrow> Inl e
         | Inr aword \<Rightarrow>
             (case readUInt16BE b i of
                Inl e \<Rightarrow> Inl e
              | Inr bword \<Rightarrow>
                  if aword = bword then compare_from a b (i + 2)
                  else Inr (if aword > bword then 1 else - 1)))
      else Inr 0)"
  by pat_completeness auto
termination
  by (relation "measure (\<lambda>(a, b, i). js_length a - i)") auto

definition compare :: "jsval \<Rightarrow> jsval \<Rightarrow> error + int" where
  "compare a b = compare_from a b 0"

text \<open>
  \<^verbatim>\<open>
  Bucket.prototype.contains = function contains(id) {
    return Bucket.compare(this.start, id) <= 0 && Bucket.compare(id, this.end) <= 0;
  };
  \<close>
  The second comparison is evaluated only when the first holds.
\<close>

definition range_contains :: "buffer \<Rightarrow> buffer \<Rightarrow> jsval \<Rightarrow> error + bool" where
  "range_contains start end ident =
     (case compare (Buf start) ident of
        Inl e \<Rightarrow> Inl e
      | Inr c \<Rightarrow>
          if c \<le> 0 then
            (case compare ident (Buf end) of Inl e \<Rightarrow> Inl e | Inr d \<Rightarrow> Inr (d \<le> 0))
          else Inr False)"

text \<open>
  The loop of \<^verbatim>\<open>Bucket.prototype.split\<close> that computes the two inner bounds:
  \<^verbatim>\<open>
  for (var i = this.end.length - 2; i >= 0; i -= 2) {
    var word = this.end.readUInt16BE(i) + overR;
    overR = word & 0x10000;
    if (i !== 0) { word ^= overR; overR = overR >> 16; } else { overR = 0; }
    word = (word + this.start.readUInt16BE(i)) >> 1;
    rpos.writeUInt16BE(word, i);
    if (overL != 0) {
      if (word - overL >= 0) { word -= overL; overL = 0; }
      else { word = 0xFFFF; overL = 1; }
    }
    lpos.writeUInt16BE(word, i);
  }
  \<close>
\<close>

function split_loop ::
  "buffer \<Rightarrow> buffer \<Rightarrow> int \<Rightarrow> int \<Rightarrow> int \<Rightarrow> buffer \<Rightarrow> buffer \<Rightarrow> error + (buffer \<times> buffer)"
where
  "split_loop start end i overR overL rpos lpos =
     (if i \<ge> 0 then
        (case readUInt16BE (Buf end) (nat i) of
           Inl e \<Rightarrow> Inl e
         | Inr eword \<Rightarrow>
             (case readUInt16BE (Buf start) (nat i) of
                Inl e \<Rightarrow> Inl e
              | Inr sword \<Rightarrow>
                  (let word0 = eword + overR;
                       over0 = word0 AND 0x10000;
                       word1 = (if i \<noteq> 0 then word0 XOR over0 else word0);
                       overR' = (if i \<noteq> 0 then drop_bit 16 over0 else 0);
                       word2 = drop_bit 1 (word1 + sword);
                       rpos' = writeUInt16BE rpos word2 (nat i);
                       word3 = (if overL \<noteq> 0
                                then (if word2 - overL \<ge> 0 then word2 - overL else 0xFFFF)
                                else word2);
                       overL' = (if overL \<noteq> 0
                                 then (if word2 - overL \<ge> 0 then 0 else 1)
                                 else overL);
                       lpos' = writeUInt16BE lpos word3 (nat i)
                   in split_loop start end (i - 2) overR' overL' rpos' lpos')))
      else Inr (rpos, lpos))"
  by pat_completeness auto
termination
  by (relation "measure (\<lambda>(start, end, i, overR, overL, rpos, lpos). nat (i + 1))") auto

text \<open>
  \<open>split_bounds start end\<close> is \<open>(rpos, lpos)\<close>: the lower bound of the tail bucket and the
  upper bound of the head bucket. \<^verbatim>\<open>new Buffer(n)\<close> is modelled as \<open>n\<close> zero bytes; the
  loop overwrites every byte when \<open>n\<close> is even.
\<close>

definition split_bounds :: "buffer \<Rightarrow> buffer \<Rightarrow> error + (buffer \<times> buffer)" where
  "split_bounds start end =
     split_loop start end (int (length end) - 2) 1 1
       (replicate (length end) 0) (replicate (length end) 0)"

text \<open>The number a Buffer denotes, big endian.\<close>

definition buf_val :: "buffer \<Rightarrow> int" where
  "buf_val b = foldl (\<lambda>acc w. 256 * acc + int w) 0 b"

section \<open>Contacts and buckets\<close>

text \<open>
  \<^verbatim>\<open>rinfo\<close> is the sender of a datagram. A \<^verbatim>\<open>RemoteNode\<close> is built from the sender's id,
  the \<^verbatim>\<open>rinfo\<close> and the clock (\<^verbatim>\<open>+new Date\<close>, the parameter \<open>now\<close>); it starts good with no
  failures. Its ping timer has no part in the operations below and is left out.
\<close>

record rinfo =
  address :: string
  port :: int

record remote =
  rid :: buffer
  raddress :: string
  rport :: int
  firstSeen :: int
  lastSeen :: int
  good :: bool
  bads :: nat

definition RemoteNode :: "int \<Rightarrow> buffer \<Rightarrow> rinfo \<Rightarrow> remote" where
  "RemoteNode now ident target =
     \<lparr>rid = ident, raddress = address target, rport = port target,
      firstSeen = now, lastSeen = now, good = True, bads = 0\<rparr>"

text \<open>
  \<^verbatim>\<open>
  RemoteNode.prototype.thank = function thank() {
    this.bads = 0; this.good = true; this.lastSeen = +new Date;
  };
  RemoteNode.prototype.curse = function curse() {
    this.bads++;
    if (this.bads > 2) { this.good = false; }
  };
  \<close>
\<close>

definition thank :: "int \<Rightarrow> remote \<Rightarrow> remote" where
  "thank now r = r\<lparr>bads := 0, good := True, lastSeen := now\<rparr>"

definition curse :: "remote \<Rightarrow> remote" where
  "curse r = (let r' = r\<lparr>bads := bads r + 1\<rparr> in if bads r' > 2 then r'\<lparr>good := False\<rparr> else r')"

text \<open>
  A bucket: its range, the \<^verbatim>\<open>nodes\<close> object and the \<^verbatim>\<open>slots\<close> counter. \<^verbatim>\<open>nodes\<close> is a
  plain object whose keys are the strings of the contacts' ids; it is an association list
  in insertion order, which is the order of \<^verbatim>\<open>Object.keys\<close> (a key made from a 20-byte
  id is never an array index). \<open>closed\<close> is \<^verbatim>\<open>this.timeout === false\<close>.
\<close>

record bucket =
  bstart :: buffer
  bend :: buffer
  first :: bool
  closed :: bool
  nodes :: "(string \<times> remote) list"
  slots :: int

text \<open>
  \<^verbatim>\<open>new Bucket(node)\<close> covers the whole space (ten words \<^verbatim>\<open>0\<close> to ten words
  \<^verbatim>\<open>0xffff\<close>); \<^verbatim>\<open>new Bucket(node, start, end)\<close> takes the given bounds. Both start with
  \<^verbatim>\<open>node.K\<close> free slots. The constructor's \<^verbatim>\<open>renew()\<close> calls \<^verbatim>\<open>node.findNodes\<close>, whose
  body is empty.
\<close>

definition Bucket0 :: "nat \<Rightarrow> bucket" where
  "Bucket0 k = \<lparr>bstart = [0, 0, 0, 0, 0, 0, 0, 0, 0, 0, 0, 0, 0, 0, 0, 0, 0, 0, 0, 0],
                bend = [255, 255, 255, 255, 255, 255, 255, 255, 255, 255, 255, 255, 255,
                        255, 255, 255, 255, 255, 255, 255],
                first = True,
                closed = False, nodes = [], slots = int k\<rparr>"

definition Bucket :: "nat \<Rightarrow> buffer \<Rightarrow> buffer \<Rightarrow> bucket" where
  "Bucket k s e = \<lparr>bstart = s, bend = e, first = False, closed = False, nodes = [],
                   slots = int k\<rparr>"

definition contains :: "bucket \<Rightarrow> jsval \<Rightarrow> error + bool" where
  "contains b ident = range_contains (bstart b) (bend b) ident"

text \<open>
  \<^verbatim>\<open>
  Bucket.prototype.getNodes = function getNodes() {
    var nodes = this.nodes;
    return Object.keys(nodes).map(function(id) { return nodes[id]; });
  };
  \<close>
\<close>

definition getNodes :: "bucket \<Rightarrow> remote list" where
  "getNodes b = map snd (nodes b)"

text \<open>
  \<^verbatim>\<open>
  Bucket.prototype.remove = function remove(id) {
    if (!this.nodes.hasOwnProperty(id)) return;
    this.nodes[id].close();
    delete this.nodes[id];
    this.slots++;
  };
  \<close>
\<close>

definition remove :: "string \<Rightarrow> bucket \<Rightarrow> bucket" where
  "remove k b =
     (if k \<in> fst ` set (nodes b)
      then b\<lparr>nodes := AList.delete k (nodes b), slots := slots b + 1\<rparr>
      else b)"

text \<open>
  The keys of the bad contacts, oldest \<^verbatim>\<open>lastSeen\<close> first:
  \<^verbatim>\<open>
  var bad = Object.keys(this.nodes).filter(function(key) {
    return !this.nodes[key].good;
  }, this).sort(function(a, b) {
    return self.nodes[a].lastSeen - self.nodes[b].lastSeen;
  });
  \<close>
  The sort is taken to be stable (it is for the at most \<^verbatim>\<open>K = 8\<close> keys of a bucket).
\<close>

definition bad_keys :: "bucket \<Rightarrow> string list" where
  "bad_keys b = map fst (sort_key (\<lambda>(k, r). lastSeen r) (filter (\<lambda>(k, r). \<not> good r) (nodes b)))"

text \<open>
  \<^verbatim>\<open>
  Bucket.prototype.add = function add(id, target) {
    var self = this;
    if (this.slots === 0) {
      var bad = ...;
      if (bad.length === 0) return false;
      this.remove(bad[0]);
    }
    var remote = target instanceof RemoteNode ?
                    target : new RemoteNode(this.node, id, target);
    this.nodes[remote.id] = remote;
    this.slots--;
    return true;
  };
  \<close>
  The argument \<open>r\<close> of the model is the value of \<^verbatim>\<open>remote\<close>: the caller passes either the
  stored contact (\<^verbatim>\<open>split\<close>) or \<open>RemoteNode now id rinfo\<close> (\<^verbatim>\<open>processRequest\<close>). The key
  is the string of the Buffer \<^verbatim>\<open>remote.id\<close>.
\<close>

definition add :: "(buffer \<Rightarrow> string) \<Rightarrow> remote \<Rightarrow> bucket \<Rightarrow> bool \<times> bucket" where
  "add ts r b =
     (if slots b = 0 \<and> bad_keys b = [] then (False, b)
      else
        (let b1 = (if slots b = 0 then remove (hd (bad_keys b)) b else b)
         in (True, b1\<lparr>nodes := AList.update (ts (rid r)) r (nodes b1),
                       slots := slots b1 - 1\<rparr>)))"

text \<open>
  The second half of \<^verbatim>\<open>split\<close>: every key of \<^verbatim>\<open>this.nodes\<close> is tested with
  \<^verbatim>\<open>head.contains(id)\<close>, where \<^verbatim>\<open>id\<close> is the key, a string:
  \<^verbatim>\<open>
  Object.keys(this.nodes).forEach(function(id) {
    if (head.contains(id)) { head.add(id, this.nodes[id]); }
    else { tail.add(id, this.nodes[id]); }
  }, this);
  \<close>
\<close>

fun relocate ::
  "(buffer \<Rightarrow> string) \<Rightarrow> (string \<times> remote) list \<Rightarrow> bucket \<Rightarrow> bucket \<Rightarrow> error + (bucket \<times> bucket)"
where
  "relocate ts [] head tail = Inr (head, tail)"
| "relocate ts ((k, r) # rest) head tail =
     (case contains head (Str k) of
        Inl e \<Rightarrow> Inl e
      | Inr c \<Rightarrow>
          if c then relocate ts rest (snd (add ts r head)) tail
          else relocate ts rest head (snd (add ts r tail)))"

text \<open>
  \<^verbatim>\<open>Bucket.prototype.split\<close>: \<^verbatim>\<open>head = new Bucket(node, this.start, lpos)\<close>,
  \<^verbatim>\<open>tail = new Bucket(node, rpos, this.end)\<close>, relocation, and the result \<^verbatim>\<open>[head, tail]\<close>.
\<close>

definition split :: "(buffer \<Rightarrow> string) \<Rightarrow> nat \<Rightarrow> bucket \<Rightarrow> error + (bucket \<times> bucket)" where
  "split ts k b =
     (case split_bounds (bstart b) (bend b) of
        Inl e \<Rightarrow> Inl e
      | Inr (rpos, lpos) \<Rightarrow>
          relocate ts (nodes b) (Bucket k (bstart b) lpos) (Bucket k rpos (bend b)))"

section \<open>The node\<close>

text \<open>
  An element of \<^verbatim>\<open>this.buckets\<close>. The table starts as \<^verbatim>\<open>[new Bucket(this)]\<close>, and the only
  write to it is \<^verbatim>\<open>this.buckets.splice(index, 1, bucket.split())\<close>, which stores the array
  returned by \<^verbatim>\<open>split\<close> as one element (\<^verbatim>\<open>splice\<close> does not flatten its arguments). An
  element is therefore a bucket or an array of buckets.
\<close>

datatype slot = One bucket | Arr "bucket list"

text \<open>Decoded bencode values, as far as the handlers inspect them.\<close>

datatype bval = BStr buffer | BInt int | BList | BDict

text \<open>The argument dictionary \<^verbatim>\<open>msg.a\<close> of a query and the decoded message.\<close>

record args =
  a_id :: "bval option"
  a_target :: "bval option"
  a_info_hash :: "bval option"
  a_token :: "bval option"
  a_port :: "bval option"

record message =
  m_t :: "buffer option"
  m_y :: "buffer option"
  m_q :: "buffer option"
  m_a :: "args option"

text \<open>A record of the peer store; \<open>ptimeout\<close> is the deadline of its pending expiry timer.\<close>

record peer =
  paddress :: string
  pport :: int
  ptimeout :: "int option"

text \<open>
  What is handed to \<^verbatim>\<open>socket.send\<close>, before \<^verbatim>\<open>bencode.encode\<close>: a query
  \<^verbatim>\<open>{t, y: 'q', q, a}\<close> or a response \<^verbatim>\<open>{t, y: 'r', r}\<close> with \<^verbatim>\<open>r.id\<close> the node's id. The
  source builds no other kind of message. \<^verbatim>\<open>utils.encodeNodes\<close> and
  \<^verbatim>\<open>utils.encodePeers\<close> are outside the repository's files; the lists stay unencoded.
\<close>

datatype qargs =
    PingArgs buffer
  | FindNodeArgs buffer buffer
  | GetPeersArgs buffer buffer
  | AnnounceArgs buffer bval bval int

datatype rargs =
    NoArgs
  | Nodes "remote list"
  | TokenNodes buffer "remote list"
  | TokenValues buffer "peer list"

datatype datagram =
    Query rinfo buffer string qargs
  | Response rinfo "buffer option" buffer rargs

datatype event = PeerNew string peer | PeerDelete string peer | Error error | Listening

text \<open>
  A continuation passed to \<^verbatim>\<open>request\<close>. The registry only calls it; what the model keeps
  of its body is the requests it issues when it runs (target, method, arguments, and
  that request's own continuation) and how it ends: \<open>Cont rs\<close> issues the requests \<open>rs\<close>
  and returns, \<open>Raise rs e\<close> issues them and then throws \<open>e\<close>.
\<close>

datatype cont =
    Cont "(rinfo \<times> string \<times> qargs \<times> cont) list"
  | Raise "(rinfo \<times> string \<times> qargs \<times> cont) list" error

fun body :: "cont \<Rightarrow> (rinfo \<times> string \<times> qargs \<times> cont) list" where
  "body (Cont rs) = rs"
| "body (Raise rs e) = rs"

fun outcome :: "cont \<Rightarrow> error option" where
  "outcome (Cont rs) = None"
| "outcome (Raise rs e) = Some e"

text \<open>
  The state of a \<^verbatim>\<open>Node\<close>. A query object \<^verbatim>\<open>{callback, timeout}\<close> is identified by the
  number \<open>next_query\<close> had when \<^verbatim>\<open>request\<close> created it (object identity, as compared by
  \<^verbatim>\<open>self.queries[key] !== query\<close>). \<open>timers\<close> holds the pending response timers with what
  their closures captured; \<open>calls\<close> logs every invocation of a continuation (the query
  object, whether it was called with an error, and the exception the call ended with, if
  any); \<open>sent\<close> and \<open>emitted\<close> log the
  datagrams and events; \<open>deferred\<close> holds the \<^verbatim>\<open>once('listening')\<close> closures of
  \<^verbatim>\<open>sendAnnouncePeer\<close>.
\<close>

record node =
  self_id :: buffer
  nport :: int
  K :: nat
  buckets :: "slot list"
  peers :: "string \<rightharpoonup> peer list"
  queries :: "string \<rightharpoonup> nat \<times> cont"
  timers :: "nat \<rightharpoonup> string \<times> cont"
  next_query :: nat
  calls :: "(nat \<times> bool \<times> error option) list"
  sent :: "datagram list"
  emitted :: "event list"
  deferred :: "(rinfo \<times> bval \<times> cont) list"

text \<open>
  \<^verbatim>\<open>new Node(port)\<close>: \<open>ident\<close> is the SHA-1 of twenty random bytes.
\<close>

definition create :: "buffer \<Rightarrow> int \<Rightarrow> node" where
  "create ident p =
     \<lparr>self_id = ident, nport = p, K = 8, buckets = [One (Bucket0 8)], peers = Map.empty,
      queries = Map.empty, timers = Map.empty, next_query = 0, calls = [], sent = [],
      emitted = [], deferred = []\<rparr>"

subsection \<open>The routing table\<close>

text \<open>
  \<^verbatim>\<open>this.buckets.filter(function(bucket) { return bucket.contains(id); })[0]\<close>, returned
  with its index (the source recovers it with \<^verbatim>\<open>indexOf\<close>). \<^verbatim>\<open>filter\<close> calls
  \<^verbatim>\<open>contains\<close> on every element in order; an array has no method \<^verbatim>\<open>contains\<close>.
  \<open>None\<close> is \<^verbatim>\<open>undefined\<close>.
\<close>

fun locate :: "slot list \<Rightarrow> jsval \<Rightarrow> error + (nat \<times> bucket) option" where
  "locate [] ident = Inr None"
| "locate (Arr bs # rest) ident = Inl TypeError"
| "locate (One b # rest) ident =
     (case contains b ident of
        Inl e \<Rightarrow> Inl e
      | Inr c \<Rightarrow>
          (case locate rest ident of
             Inl e \<Rightarrow> Inl e
           | Inr r \<Rightarrow> Inr (if c then Some (0, b) else map_option (\<lambda>(i, b'). (Suc i, b')) r)))"

text \<open>
  The loop of \<^verbatim>\<open>processRequest\<close> that feeds the sender to the routing table:
  \<^verbatim>\<open>
  while (true) {
    var bucket = this.buckets.filter(function(bucket) {
      return bucket.contains(id);
    })[0];
    if (bucket.add(id, rinfo)) break;
    if (!bucket.contains(this.id)) break;
    this.buckets.splice(this.buckets.indexOf(bucket), 1, bucket.split());
  }
  \<close>
  The result is the exception thrown, if any, and the state reached.
\<close>

definition all_One :: "slot list \<Rightarrow> bool" where
  "all_One sl = list_all (\<lambda>x. case x of One b \<Rightarrow> True | Arr bs \<Rightarrow> False) sl"

function observe ::
  "(buffer \<Rightarrow> string) \<Rightarrow> int \<Rightarrow> buffer \<Rightarrow> rinfo \<Rightarrow> node \<Rightarrow> error option \<times> node"
where
  "observe ts now ident ri s =
     (case locate (buckets s) (Buf ident) of
        Inl e \<Rightarrow> (Some e, s)
      | Inr None \<Rightarrow> (Some TypeError, s)
      | Inr (Some (index, bucket)) \<Rightarrow>
          (case add ts (RemoteNode now ident ri) bucket of
             (True, bucket') \<Rightarrow> (None, s\<lparr>buckets := (buckets s)[index := One bucket']\<rparr>)
           | (False, bucket') \<Rightarrow>
               (case contains bucket (Buf (self_id s)) of
                  Inl e \<Rightarrow> (Some e, s)
                | Inr False \<Rightarrow> (None, s)
                | Inr True \<Rightarrow>
                    (case split ts (K s) bucket of
                       Inl e \<Rightarrow> (Some e, s)
                     | Inr (head, tail) \<Rightarrow>
                         observe ts now ident ri
                           (s\<lparr>buckets := (buckets s)[index := Arr [head, tail]]\<rparr>)))))"
  by pat_completeness auto
termination
proof (relation "measure (\<lambda>(ts, now, ident, ri, s). if all_One (buckets s) then 1 else 0)")
  show "wf (measure (\<lambda>(ts, now, ident, ri, s). if all_One (buckets s) then 1 else (0::nat)))"
    by simp
next
  fix ts :: "buffer \<Rightarrow> string" and now :: int and ident :: buffer and ri :: rinfo
    and s :: node and x2 x2a x y x1 x2b x2c xa ya
  assume loc: "locate (buckets s) (Buf ident) = Inr x2" and x2: "x2 = Some x2a"
    and xy: "(x, y) = x2a"
  have all: "all_One sl \<and> (\<forall>i b. r = Some (i, b) \<longrightarrow> i < length sl)"
    if "locate sl k = Inr r" for sl k r
    using that
  proof (induction sl arbitrary: r)
    case Nil
    then show ?case by (simp add: all_One_def)
  next
    case (Cons a sl)
    then show ?case
      by (cases a) (auto simp: all_One_def split: sum.splits if_splits)
  qed
  from all[OF loc] x2 xy have one: "all_One (buckets s)" and lt: "x < length (buckets s)"
    by auto
  have "Arr [xa, ya] \<in> set ((buckets s)[x := Arr [xa, ya]])"
    using lt by (rule set_update_memI)
  then have "\<not> all_One ((buckets s)[x := Arr [xa, ya]])"
    by (force simp: all_One_def list_all_iff)
  with one
  show "((ts, now, ident, ri, s\<lparr>buckets := (buckets s)[x := Arr [xa, ya]]\<rparr>), ts, now, ident, ri, s)
        \<in> measure (\<lambda>(ts, now, ident, ri, s). if all_One (buckets s) then 1 else 0)"
    by simp
qed

text \<open>
  \<^verbatim>\<open>
  Node.prototype.findKClosest = function findKClosest(id) {
    var bucket = this.buckets.filter(function(bucket) {
      return bucket.contains(id);
    })[0];
    var nodes = bucket.getNodes();
    if (nodes.length < this.K) {
      var index = this.buckets.indexOf(bucket);
      if (index - 1 >= 0) { nodes = nodes.concat(this.buckets[index - 1].getNodes()); }
      if (index + 1 < this.buckets.length) {
        nodes = nodes.concat(this.buckets[index + 1].getNodes());
      }
    }
    nodes = nodes.slice(0, this.K);
    return nodes;
  };
  \<close>
\<close>

definition slot_getNodes :: "slot \<Rightarrow> error + remote list" where
  "slot_getNodes x = (case x of One b \<Rightarrow> Inr (getNodes b) | Arr bs \<Rightarrow> Inl TypeError)"

definition findKClosest :: "buffer \<Rightarrow> node \<Rightarrow> error + remote list" where
  "findKClosest ident s =
     (case locate (buckets s) (Buf ident) of
        Inl e \<Rightarrow> Inl e
      | Inr None \<Rightarrow> Inl TypeError
      | Inr (Some (index, bucket)) \<Rightarrow>
          (let nodes0 = getNodes bucket in
           if length nodes0 < K s then
             (case (if index \<ge> 1 then slot_getNodes (buckets s ! (index - 1)) else Inr []) of
                Inl e \<Rightarrow> Inl e
              | Inr before \<Rightarrow>
                  (case (if index + 1 < length (buckets s)
                         then slot_getNodes (buckets s ! (index + 1)) else Inr []) of
                     Inl e \<Rightarrow> Inl e
                   | Inr after \<Rightarrow> Inr (take (K s) (nodes0 @ before @ after))))
           else Inr (take (K s) nodes0)))"

subsection \<open>Transactions\<close>

text \<open>
  What the host provides: \<open>toStr\<close> is \<^verbatim>\<open>Buffer.prototype.toString()\<close>; \<open>random n\<close> are the
  two values \<^verbatim>\<open>~~(Math.random() * 256)\<close> drawn by the request that creates query object
  \<open>n\<close>; \<open>global\<close> is the global object, consulted for an identifier that no enclosing
  scope of the source binds.
\<close>

record host =
  toStr :: "buffer \<Rightarrow> string"
  random :: "nat \<Rightarrow> nat \<times> nat"
  global :: "string \<rightharpoonup> bval"

text \<open>\<^verbatim>\<open>buf.toString('hex')\<close>: two lower-case hexadecimal digits per byte.\<close>

definition hexdigit :: "nat \<Rightarrow> char" where
  "hexdigit d = ''0123456789abcdef'' ! (d mod 16)"

definition hex :: "buffer \<Rightarrow> string" where
  "hex b = concat (map (\<lambda>w. [hexdigit (w div 16), hexdigit w]) b)"

text \<open>
  \<^verbatim>\<open>
  Node.prototype.request = function request(target, type, args, callback) {
    var self = this,
        id = new Buffer([~~(Math.random() * 256), ~~(Math.random() * 256)]),
        msg = { t: id, y: 'q', q: type, a: args },
        packet = bencode.encode(msg);
    this.socket.send(packet, 0, packet.length, target.port, target.address);
    var key = id.toString('hex'),
        query = {
          callback: callback,
          timeout: setTimeout(function() {
            callback(new Error('Timed out'));
            if (self.queries[key] !== query) return;
            delete self.queries[key];
          }, this.timeouts.response)
        };
    this.queries[key] = query;
  };
  \<close>
\<close>

definition request :: "host \<Rightarrow> rinfo \<Rightarrow> string \<Rightarrow> qargs \<Rightarrow> cont \<Rightarrow> node \<Rightarrow> node" where
  "request h target type a callback s =
     (let q = next_query s;
          ident = [fst (random h q), snd (random h q)];
          key = hex ident
      in s\<lparr>sent := sent s @ [Query target ident type a],
            timers := (timers s)(q \<mapsto> (key, callback)),
            queries := (queries s)(key \<mapsto> (q, callback)),
            next_query := q + 1\<rparr>)"

text \<open>
  Calling the continuation of query object \<open>q\<close>: the call is logged, then the body runs,
  issuing its requests in order, and returns or throws.
\<close>

definition invoke :: "host \<Rightarrow> nat \<Rightarrow> bool \<Rightarrow> cont \<Rightarrow> node \<Rightarrow> error option \<times> node" where
  "invoke h q err callback s =
     (outcome callback,
      foldl (\<lambda>s' (target, type, a, cb). request h target type a cb s')
        (s\<lparr>calls := calls s @ [(q, err, outcome callback)]\<rparr>) (body callback))"

text \<open>
  The response timer of query object \<open>q\<close> fires. A timer that is not pending (it fired
  before, or \<^verbatim>\<open>clearTimeout\<close> cancelled it) does nothing. An exception thrown by the
  continuation leaves the timer function before the identity test and the \<^verbatim>\<open>delete\<close>.
\<close>

definition fire :: "host \<Rightarrow> nat \<Rightarrow> node \<Rightarrow> error option \<times> node" where
  "fire h q s =
     (case timers s q of
        None \<Rightarrow> (None, s)
      | Some (key, callback) \<Rightarrow>
          (case invoke h q True callback (s\<lparr>timers := (timers s)(q := None)\<rparr>) of
             (Some e, s1) \<Rightarrow> (Some e, s1)
           | (None, s1) \<Rightarrow>
               (case queries s1 key of
                  None \<Rightarrow> (None, s1)
                | Some (q', cb') \<Rightarrow>
                    if q' \<noteq> q then (None, s1)
                    else (None, s1\<lparr>queries := (queries s1)(key := None)\<rparr>))))"

text \<open>
  The response branch of \<^verbatim>\<open>onmessage\<close>, entered when \<^verbatim>\<open>msg.y\<close> is the one byte \<^verbatim>\<open>r\<close>:
  \<^verbatim>\<open>
  var id = msg.t.toString('hex');
  if (this.queries.hasOwnProperty(id)) {
    var query = this.queries[id];
    clearTimeout(query.timeout);
    query.callback(null, msg.r, rinfo);
    delete this.queries[id];
  }
  return;
  \<close>
  An exception thrown by the continuation leaves the branch before the \<^verbatim>\<open>delete\<close>, for
  the \<^verbatim>\<open>catch\<close> of \<^verbatim>\<open>onmessage\<close>.
\<close>

definition resolve :: "host \<Rightarrow> message \<Rightarrow> node \<Rightarrow> error option \<times> node" where
  "resolve h msg s =
     (case m_t msg of
        None \<Rightarrow> (Some TypeError, s)
      | Some t \<Rightarrow>
          (case queries s (hex t) of
             None \<Rightarrow> (None, s)
           | Some (q, callback) \<Rightarrow>
               (case invoke h q False callback (s\<lparr>timers := (timers s)(q := None)\<rparr>) of
                  (Some e, s1) \<Rightarrow> (Some e, s1)
                | (None, s1) \<Rightarrow> (None, s1\<lparr>queries := (queries s1)(hex t := None)\<rparr>))))"

subsection \<open>Tokens\<close>

text \<open>
  \<^verbatim>\<open>
  Node.prototype.issueToken = function issueToken() {
    // XXX: Issue real token
    return new Buffer(4);
  };
  Node.prototype.verifyToken = function verifyToken(token) {
    // XXX: Verify token
    return true;
  };
  \<close>
  \<open>junk\<close> is what the fresh four bytes hold. Neither function has an address argument.
\<close>

definition issueToken :: "buffer \<Rightarrow> buffer" where
  "issueToken junk = take 4 junk"

definition verifyToken :: "bval \<Rightarrow> bool" where
  "verifyToken token = True"

subsection \<open>Request handlers\<close>

text \<open>
  \<^verbatim>\<open>
  Node.prototype.respond = function respond(target, msg, args) {
    args.id = this.id;
    var response = { t: msg.t, y: 'r', r: args }, packet = bencode.encode(response);
    this.socket.send(packet, 0, packet.length, target.port, target.address);
  };
  \<close>
\<close>

definition respond :: "rinfo \<Rightarrow> message \<Rightarrow> rargs \<Rightarrow> node \<Rightarrow> node" where
  "respond target msg a s = s\<lparr>sent := sent s @ [Response target (m_t msg) (self_id s) a]\<rparr>"

definition processPing :: "message \<Rightarrow> rinfo \<Rightarrow> node \<Rightarrow> error option \<times> node" where
  "processPing msg ri s = (None, respond ri msg NoArgs s)"

text \<open>
  \<^verbatim>\<open>processFindNode\<close> answers with the contacts closest to \<^verbatim>\<open>msg.a.id\<close>, the sender's id,
  which \<^verbatim>\<open>processRequest\<close> has checked to be a Buffer of 20 bytes.
\<close>

definition processFindNode :: "buffer \<Rightarrow> message \<Rightarrow> rinfo \<Rightarrow> node \<Rightarrow> error option \<times> node" where
  "processFindNode ident msg ri s =
     (case findKClosest ident s of
        Inl e \<Rightarrow> (Some e, s)
      | Inr ns \<Rightarrow> (None, respond ri msg (Nodes ns) s))"

text \<open>
  \<^verbatim>\<open>
  Node.prototype.processGetPeers = function processGetPeers(msg, rinfo) {
    if (!msg.a.info_hash || !Buffer.isBuffer(msg.a.info_hash) ||
        msg.a.info_hash.length !== 20) { return; }
    var infohash = msg.a.info_hash.toString('hex'), token = this.issueToken();
    if (!this.peers.hasOwnProperty(infohash)) {
      this.respond(rinfo, msg, {
        token: token, nodes: utils.encodeNodes(this.findKClosest(msg.a.info_hash))
      });
      return;
    }
    this.respond(rinfo, msg, { token: token, values: utils.encodePeers(this.peers[infohash]) });
  };
  \<close>
\<close>

definition processGetPeers ::
  "buffer \<Rightarrow> args \<Rightarrow> message \<Rightarrow> rinfo \<Rightarrow> node \<Rightarrow> error option \<times> node"
where
  "processGetPeers junk a msg ri s =
     (case a_info_hash a of
        Some (BStr ih) \<Rightarrow>
          if length ih \<noteq> 20 then (None, s)
          else
            (let infohash = hex ih; token = issueToken junk
             in case peers s infohash of
                  None \<Rightarrow>
                    (case findKClosest ih s of
                       Inl e \<Rightarrow> (Some e, s)
                     | Inr ns \<Rightarrow> (None, respond ri msg (TokenNodes token ns) s))
                | Some ps \<Rightarrow> (None, respond ri msg (TokenValues token ps) s))
      | _ \<Rightarrow> (None, s))"

text \<open>
  The expiry timer of a peer record runs for \<^verbatim>\<open>this.timeouts.peer\<close>, one hour in
  milliseconds. \<^verbatim>\<open>renew\<close> cancels the record's pending timer and starts a new one.
\<close>

definition peer_timeout :: int where
  "peer_timeout = 60 * 60 * 1000"

definition renew :: "int \<Rightarrow> peer \<Rightarrow> peer" where
  "renew now p = p\<lparr>ptimeout := Some (now + peer_timeout)\<rparr>"

text \<open>
  The search for an existing record, with the test as the source writes it:
  \<^verbatim>\<open>
  peers.some(function(peer) {
    if (peer.address !== address || peer.port !== peer.port) return false;
    existing = peer;
    return true;
  });
  \<close>
  \<open>renew_existing\<close> renews the first record that passes the test, in place.
\<close>

definition same_peer :: "string \<Rightarrow> int \<Rightarrow> peer \<Rightarrow> bool" where
  "same_peer addr p x = (\<not> (paddress x \<noteq> addr \<or> pport x \<noteq> pport x))"

fun renew_existing :: "string \<Rightarrow> int \<Rightarrow> int \<Rightarrow> peer list \<Rightarrow> peer list" where
  "renew_existing addr p now [] = []"
| "renew_existing addr p now (x # xs) =
     (if same_peer addr p x then renew now x # xs else x # renew_existing addr p now xs)"

text \<open>
  \<^verbatim>\<open>
  Node.prototype.processAnnouncePeer = function processAnnouncePeer(msg, rinfo) {
    if (!msg.a.token || !Buffer.isBuffer(msg.a.token) || !this.verifyToken(msg.a.token) ||
        !msg.a.info_hash || !Buffer.isBuffer(msg.a.info_hash) ||
        msg.a.info_hash.length !== 20) { return; }
    var self = this,
        infohash = msg.a.info_hash.toString('hex'),
        peers = this.peers[infohash],
        address = rinfo.address,
        port = typeof msg.a.port === 'number' ? msg.a.port : rinfo.port,
        existing;
    peers.some(...);
    if (existing) {
      existing.renew();
    } else {
      var peer = { address: address, port: port, renew: ..., timeout: null };
      peer.renew();
      this.peers[infohash].push(peer);
      this.emit('peer:new', infohash, peer);
    }
    this.respond(rinfo, msg, {});
  };
  \<close>
  \<^verbatim>\<open>this.peers[infohash]\<close> is \<^verbatim>\<open>undefined\<close> when the store has no list for the infohash;
  \<^verbatim>\<open>peers.some\<close> then throws a TypeError.
\<close>

definition processAnnouncePeer ::
  "int \<Rightarrow> args \<Rightarrow> message \<Rightarrow> rinfo \<Rightarrow> node \<Rightarrow> error option \<times> node"
where
  "processAnnouncePeer now a msg ri s =
     (case a_token a of
        Some (BStr tok) \<Rightarrow>
          if \<not> verifyToken (BStr tok) then (None, s)
          else
            (case a_info_hash a of
               Some (BStr ih) \<Rightarrow>
                 if length ih \<noteq> 20 then (None, s)
                 else
                   (let infohash = hex ih;
                        addr = address ri;
                        p = (case a_port a of Some (BInt n) \<Rightarrow> n | _ \<Rightarrow> port ri)
                    in case peers s infohash of
                         None \<Rightarrow> (Some TypeError, s)
                       | Some ps \<Rightarrow>
                           if list_ex (same_peer addr p) ps
                           then (None, respond ri msg NoArgs
                                   (s\<lparr>peers := (peers s)(infohash \<mapsto> renew_existing addr p now ps)\<rparr>))
                           else
                             (let new = renew now \<lparr>paddress = addr, pport = p, ptimeout = None\<rparr>
                              in (None, respond ri msg NoArgs
                                    (s\<lparr>peers := (peers s)(infohash \<mapsto> ps @ [new]),
                                       emitted := emitted s @ [PeerNew infohash new]\<rparr>))))
             | _ \<Rightarrow> (None, s))
      | _ \<Rightarrow> (None, s))"

text \<open>
  \<^verbatim>\<open>
  Node.prototype.processRequest = function processRequest(type, msg, rinfo) {
    if (!msg.a) return;
    var id = msg.a.id;
    if (!id || !Buffer.isBuffer(id) || id.length !== 20) return;
    while (true) { ... }
    if (type === 'ping') { this.processPing(msg, rinfo); }
    else if (type === 'find_node') { this.processFindNode(msg, rinfo); }
    else if (type === 'get_peers') { this.processGetPeers(msg, rinfo); }
    else if (type === 'announce_peer') { this.processAnnouncePeer(msg, rinfo); }
    else { // Ignore }
  };
  \<close>
  \<open>m_a msg = None\<close> stands for an \<^verbatim>\<open>a\<close> that is absent or not a dictionary: in both cases
  the function returns before the loop.
\<close>

definition processRequest ::
  "host \<Rightarrow> int \<Rightarrow> buffer \<Rightarrow> string \<Rightarrow> message \<Rightarrow> rinfo \<Rightarrow> node \<Rightarrow> error option \<times> node"
where
  "processRequest h now junk type msg ri s =
     (case m_a msg of
        None \<Rightarrow> (None, s)
      | Some a \<Rightarrow>
          (case a_id a of
             Some (BStr ident) \<Rightarrow>
               if length ident \<noteq> 20 then (None, s)
               else
                 (case observe (toStr h) now ident ri s of
                    (Some e, s1) \<Rightarrow> (Some e, s1)
                  | (None, s1) \<Rightarrow>
                      if type = ''ping'' then processPing msg ri s1
                      else if type = ''find_node'' then processFindNode ident msg ri s1
                      else if type = ''get_peers'' then processGetPeers junk a msg ri s1
                      else if type = ''announce_peer'' then processAnnouncePeer now a msg ri s1
                      else (None, s1))
           | _ \<Rightarrow> (None, s)))"

text \<open>
  \<^verbatim>\<open>
  Node.prototype.onmessage = function onmessage(packet, rinfo) {
    try {
      var msg = bencode.decode(packet);
      if (msg.y && msg.y.length === 1 && msg.y[0] === 0x72 /* r */) { ...; return; }
      this.processRequest(msg.q.toString(), msg, rinfo);
    } catch (e) {
      this.emit('error', e);
    }
  };
  \<close>
  The model starts from the decoded message (\<^verbatim>\<open>bencode\<close> is outside the repository's
  files). A message without \<^verbatim>\<open>q\<close> makes \<^verbatim>\<open>msg.q.toString()\<close> throw.
\<close>

definition catch :: "error option \<times> node \<Rightarrow> node" where
  "catch r = (case r of (None, s) \<Rightarrow> s | (Some e, s) \<Rightarrow> s\<lparr>emitted := emitted s @ [Error e]\<rparr>)"

definition onmessage :: "host \<Rightarrow> int \<Rightarrow> buffer \<Rightarrow> message \<Rightarrow> rinfo \<Rightarrow> node \<Rightarrow> node" where
  "onmessage h now junk msg ri s =
     catch
       (if m_y msg = Some [0x72] then resolve h msg s
        else
          (case m_q msg of
             None \<Rightarrow> (Some TypeError, s)
           | Some q \<Rightarrow> processRequest h now junk (toStr h q) msg ri s))"

subsection \<open>Outbound queries\<close>

definition sendPing :: "host \<Rightarrow> rinfo \<Rightarrow> cont \<Rightarrow> node \<Rightarrow> node" where
  "sendPing h target callback s = request h target ''ping'' (PingArgs (self_id s)) callback s"

definition sendFindNode :: "host \<Rightarrow> rinfo \<Rightarrow> buffer \<Rightarrow> cont \<Rightarrow> node \<Rightarrow> node" where
  "sendFindNode h target ident callback s =
     request h target ''find_node'' (FindNodeArgs (self_id s) ident) callback s"

definition sendGetPeers :: "host \<Rightarrow> rinfo \<Rightarrow> buffer \<Rightarrow> cont \<Rightarrow> node \<Rightarrow> node" where
  "sendGetPeers h target ident callback s =
     request h target ''get_peers'' (GetPeersArgs (self_id s) ident) callback s"

text \<open>
  \<^verbatim>\<open>
  Node.prototype.sendAnnouncePeer = function sendAnnouncePeer(target, token, peer, callback) {
    var self = this;
    if (this.port === 0) {
      this.once('listening', function() { send(); });
    } else {
      send();
    }
    function send() {
      self.request(target, 'announce_peer', {
        id: self.id, info_hash: id, token: token, port: self.port
      }, callback);
    }
  };
  \<close>
  The identifiers bound where \<^verbatim>\<open>send\<close> is written, innermost scope first: \<^verbatim>\<open>send\<close> itself
  (no parameter, no variable), \<^verbatim>\<open>sendAnnouncePeer\<close> (its parameters, \<^verbatim>\<open>self\<close> and the inner
  function), and the module (its \<^verbatim>\<open>var\<close>s and functions and the module wrapper's
  parameters). \<^verbatim>\<open>arguments\<close> is bound in every function.
\<close>

definition send_scope :: "string list" where
  "send_scope = [''arguments'']"

definition sendAnnouncePeer_scope :: "string list" where
  "sendAnnouncePeer_scope =
     [''target'', ''token'', ''peer'', ''callback'', ''self'', ''send'', ''arguments'']"

definition module_scope :: "string list" where
  "module_scope =
     [''dgram'', ''crypto'', ''util'', ''Buffer'', ''EventEmitter'', ''dht'', ''bencode'',
      ''utils'', ''Node'', ''Bucket'', ''RemoteNode'', ''exports'', ''require'', ''module'',
      ''__filename'', ''__dirname'', ''arguments'']"

text \<open>
  Reading a variable inside \<^verbatim>\<open>send\<close>: a name bound in one of the three scopes has a
  value there (\<open>locals\<close>); any other name is looked up in the global object, and reading a
  name that is bound nowhere throws a ReferenceError.
\<close>

definition read_var :: "host \<Rightarrow> (string \<rightharpoonup> bval) \<Rightarrow> string \<Rightarrow> error + bval" where
  "read_var h locals x =
     (if x \<in> set (send_scope @ sendAnnouncePeer_scope @ module_scope)
      then (case locals x of Some v \<Rightarrow> Inr v | None \<Rightarrow> Inl TypeError)
      else (case global h x of Some v \<Rightarrow> Inr v | None \<Rightarrow> Inl ReferenceError))"

text \<open>
  The body of \<^verbatim>\<open>send\<close>. The argument object is built before \<^verbatim>\<open>self.request\<close> is called;
  its property \<^verbatim>\<open>info_hash\<close> reads the variable \<^verbatim>\<open>id\<close>, its property \<^verbatim>\<open>token\<close> the
  variable \<^verbatim>\<open>token\<close>.
\<close>

definition send :: "host \<Rightarrow> rinfo \<Rightarrow> bval \<Rightarrow> cont \<Rightarrow> node \<Rightarrow> error option \<times> node" where
  "send h target token callback s =
     (case read_var h [''token'' \<mapsto> token] ''id'' of
        Inl e \<Rightarrow> (Some e, s)
      | Inr ih \<Rightarrow>
          (case read_var h [''token'' \<mapsto> token] ''token'' of
             Inl e \<Rightarrow> (Some e, s)
           | Inr tok \<Rightarrow>
               (None, request h target ''announce_peer''
                        (AnnounceArgs (self_id s) ih tok (nport s)) callback s)))"

definition sendAnnouncePeer ::
  "host \<Rightarrow> rinfo \<Rightarrow> bval \<Rightarrow> peer \<Rightarrow> cont \<Rightarrow> node \<Rightarrow> error option \<times> node"
where
  "sendAnnouncePeer h target token p callback s =
     (if nport s = 0
      then (None, s\<lparr>deferred := deferred s @ [(target, token, callback)]\<rparr>)
      else send h target token callback s)"

text \<open>
  The socket is bound: the node takes the socket's port and emits \<^verbatim>\<open>listening\<close>, which
  runs the \<^verbatim>\<open>once\<close> listeners in order of registration, each removed before it runs. An
  exception leaves the remaining listeners unrun.
\<close>

fun run_deferred ::
  "host \<Rightarrow> (rinfo \<times> bval \<times> cont) list \<Rightarrow> node \<Rightarrow> error option \<times> node"
where
  "run_deferred h [] s = (None, s)"
| "run_deferred h ((target, token, callback) # rest) s =
     (case send h target token callback (s\<lparr>deferred := rest\<rparr>) of
        (Some e, s') \<Rightarrow> (Some e, s')
      | (None, s') \<Rightarrow> run_deferred h rest s')"

definition listening :: "host \<Rightarrow> int \<Rightarrow> node \<Rightarrow> error option \<times> node" where
  "listening h p s =
     run_deferred h (deferred s) (s\<lparr>nport := p, emitted := emitted s @ [Listening]\<rparr>)"

subsection \<open>Runs of a node\<close>

text \<open>
  The wrapped callbacks of \<^verbatim>\<open>RemoteNode.prototype.ping\<close>, \<^verbatim>\<open>findNode\<close>, \<^verbatim>\<open>getPeers\<close> and
  \<^verbatim>\<open>announcePeer\<close> call \<^verbatim>\<open>thank\<close> or \<^verbatim>\<open>curse\<close> on the contact they were made for. On the
  table this is an update of the contact stored under a key of a bucket.
\<close>

definition on_contact :: "(remote \<Rightarrow> remote) \<Rightarrow> nat \<Rightarrow> string \<Rightarrow> node \<Rightarrow> node" where
  "on_contact f index k s =
     (if index < length (buckets s) then
        (case buckets s ! index of
           One b \<Rightarrow>
             s\<lparr>buckets := (buckets s)[index :=
                  One (b\<lparr>nodes := map (\<lambda>(k', r). if k' = k then (k', f r) else (k', r)) (nodes b)\<rparr>)]\<rparr>
         | Arr bs \<Rightarrow> s)
      else s)"

text \<open>
  What can happen to a node: a datagram arrives (with the clock and the content of a
  fresh allocation at that moment), a response timer fires, the application calls one of
  the four query operations, the socket is bound, or a wrapped callback thanks or curses
  a stored contact. An exception that leaves \<^verbatim>\<open>sendAnnouncePeer\<close>, a \<^verbatim>\<open>listening\<close>
  listener or a response timer is not caught by the source; the run continues from the
  state at the throw.
\<close>

datatype input =
    Message int buffer message rinfo
  | Timeout nat
  | Ping rinfo cont
  | FindNode rinfo buffer cont
  | GetPeers rinfo buffer cont
  | AnnouncePeer rinfo bval peer cont
  | Bound int
  | Thank int nat string
  | Curse nat string

fun step :: "host \<Rightarrow> node \<Rightarrow> input \<Rightarrow> node" where
  "step h s (Message now junk msg ri) = onmessage h now junk msg ri s"
| "step h s (Timeout q) = snd (fire h q s)"
| "step h s (Ping target cb) = sendPing h target cb s"
| "step h s (FindNode target ident cb) = sendFindNode h target ident cb s"
| "step h s (GetPeers target ident cb) = sendGetPeers h target ident cb s"
| "step h s (AnnouncePeer target token p cb) = snd (sendAnnouncePeer h target token p cb s)"
| "step h s (Bound p) = snd (listening h p s)"
| "step h s (Thank now index k) = on_contact (thank now) index k s"
| "step h s (Curse index k) = on_contact curse index k s"

definition run :: "host \<Rightarrow> input list \<Rightarrow> node \<Rightarrow> node" where
  "run h inps s = foldl (step h) s inps"

subsection \<open>Auxiliary notions\<close>

text \<open>A well-formed id: twenty bytes.\<close>

definition valid_id :: "buffer \<Rightarrow> bool" where
  "valid_id b = (length b = 20 \<and> list_all (\<lambda>x. x < 256) b)"

text \<open>
  Modelled from the spec: the XOR distance of two ids, \<open>d(a, b) = a XOR b\<close> read as a
  big-endian unsigned number. The source has no such function.
\<close>

definition xorDistance :: "buffer \<Rightarrow> buffer \<Rightarrow> int" where
  "xorDistance a b = buf_val (map2 (\<lambda>x y. x XOR y) a b)"

text \<open>
  On a Buffer whose bytes are all below 128, \<^verbatim>\<open>toString()\<close> yields one character per
  byte; \<open>ascii\<close> is that function, and \<open>bytes\<close> is its inverse on such strings. They give
  the host of the concrete runs below: an empty global object, and transaction ids
  \<^verbatim>\<open>[0, n mod 256]\<close>.
\<close>

definition ascii :: "buffer \<Rightarrow> string" where
  "ascii b = map char_of b"

definition bytes :: "string \<Rightarrow> buffer" where
  "bytes str = map of_char str"

definition host0 :: host where
  "host0 = \<lparr>toStr = ascii, random = (\<lambda>n. (0, n mod 256)), global = Map.empty\<rparr>"

text \<open>
  Concrete ranges used below: \<open>lo144\<close> is \<^verbatim>\<open>0x8000 0000 ... 0000\<close> and \<open>hi144\<close> is
  \<^verbatim>\<open>0x8000 ffff ... ffff\<close>, the range of the home bucket of a node whose id starts with
  \<^verbatim>\<open>0x8000\<close> after sixteen exact halvings of the whole space; \<open>pred_lo144\<close> is
  \<^verbatim>\<open>0x7fff ffff ... ffff\<close>.
\<close>

definition lo144 :: buffer where
  "lo144 = [128, 0, 0, 0, 0, 0, 0, 0, 0, 0, 0, 0, 0, 0, 0, 0, 0, 0, 0, 0]"

definition hi144 :: buffer where
  "hi144 = [128, 0, 255, 255, 255, 255, 255, 255, 255, 255, 255, 255, 255, 255, 255, 255,
            255, 255, 255, 255]"

definition pred_lo144 :: buffer where
  "pred_lo144 = [127, 255, 255, 255, 255, 255, 255, 255, 255, 255, 255, 255, 255, 255, 255,
                 255, 255, 255, 255, 255]"

text \<open>Inputs of the concrete runs below.\<close>

definition host_same :: host where
  "host_same = \<lparr>toStr = ascii, random = (\<lambda>n. (0, 0)), global = Map.empty\<rparr>"

definition peerA :: rinfo where
  "peerA = \<lparr>address = ''10.0.0.1'', port = 6881\<rparr>"

definition peerB :: rinfo where
  "peerB = \<lparr>address = ''10.0.0.2'', port = 6882\<rparr>"

definition reply00 :: message where
  "reply00 = \<lparr>m_t = Some [0, 0], m_y = Some [0x72], m_q = None, m_a = None\<rparr>"

definition id1 :: buffer where
  "id1 = [1, 1, 1, 1, 1, 1, 1, 1, 1, 1, 1, 1, 1, 1, 1, 1, 1, 1, 1, 1]"

definition id2 :: buffer where
  "id2 = [2, 2, 2, 2, 2, 2, 2, 2, 2, 2, 2, 2, 2, 2, 2, 2, 2, 2, 2, 2]"

definition id3 :: buffer where
  "id3 = [3, 3, 3, 3, 3, 3, 3, 3, 3, 3, 3, 3, 3, 3, 3, 3, 3, 3, 3, 3]"

text \<open>
  An \<^verbatim>\<open>announce_peer\<close> query from the node with id \<open>id2\<close> for the infohash \<open>id3\<close>, with a
  four-byte token and the port 7000.
\<close>

definition announce1 :: message where
  "announce1 =
     \<lparr>m_t = Some [97, 97], m_y = Some [0x71], m_q = Some (bytes ''announce_peer''),
      m_a = Some \<lparr>a_id = Some (BStr id2), a_target = None, a_info_hash = Some (BStr id3),
                  a_token = Some (BStr [0, 0, 0, 0]), a_port = Some (BInt 7000)\<rparr>\<rparr>"

text \<open>
  A query with the method name \<^verbatim>\<open>foo\<close>, and \<open>announce1\<close> with the token replaced by an
  integer. \<open>store1\<close> is a node whose peer store holds the empty list for the infohash
  \<open>id3\<close>.
\<close>

definition unknown1 :: message where
  "unknown1 =
     \<lparr>m_t = Some [97, 97], m_y = Some [0x71], m_q = Some (bytes ''foo''),
      m_a = Some \<lparr>a_id = Some (BStr id2), a_target = None, a_info_hash = None,
                  a_token = None, a_port = None\<rparr>\<rparr>"

definition announce_int_token :: message where
  "announce_int_token =
     \<lparr>m_t = Some [97, 97], m_y = Some [0x71], m_q = Some (bytes ''announce_peer''),
      m_a = Some \<lparr>a_id = Some (BStr id2), a_target = None, a_info_hash = Some (BStr id3),
                  a_token = Some (BInt 5), a_port = Some (BInt 7000)\<rparr>\<rparr>"

definition store1 :: node where
  "store1 = (create id1 6881)\<lparr>peers := [hex id3 \<mapsto> []]\<rparr>"

text \<open>
  \<open>store2\<close> is a node whose peer store holds, for the infohash \<open>id3\<close>, one record for the
  address of \<open>peerA\<close>, expiring at time 100.
\<close>

definition store2 :: node where
  "store2 = (create id1 6881)
     \<lparr>peers := [hex id3 \<mapsto> [\<lparr>paddress = ''10.0.0.1'', pport = 7000, ptimeout = Some 100\<rparr>]]\<rparr>"

text \<open>
  \<open>announce_with tok\<close> is \<open>announce1\<close> carrying the token \<open>tok\<close>.
\<close>

definition announce_with :: "buffer \<Rightarrow> args" where
  "announce_with tok =
     \<lparr>a_id = Some (BStr id2), a_target = None, a_info_hash = Some (BStr id3),
      a_token = Some (BStr tok), a_port = Some (BInt 7000)\<rparr>"

text \<open>
  \<open>observes\<close> feeds a list of observations (clock, sender id, sender) to the routing
  loop, one after the other; each continues from the state the previous one left,
  whether it returned or threw.
\<close>

definition observes :: "(buffer \<Rightarrow> string) \<Rightarrow> (int \<times> buffer \<times> rinfo) list \<Rightarrow> node \<Rightarrow> node" where
  "observes ts obs s = foldl (\<lambda>s' (now, ident, ri). snd (observe ts now ident ri s')) s obs"

text \<open>The range of the initial bucket: the whole space.\<close>

definition full_range :: "bucket \<Rightarrow> bool" where
  "full_range b = (bstart b = bstart (Bucket0 0) \<and> bend b = bend (Bucket0 0))"

text \<open>
  \<open>idn n\<close> is the id made of twenty bytes \<open>n\<close>; \<open>eight_obs\<close> are eight observations of
  eight different ids.
\<close>

definition idn :: "nat \<Rightarrow> buffer" where
  "idn n = replicate 20 n"

definition id4 :: buffer where
  "id4 = [4, 4, 4, 4, 4, 4, 4, 4, 4, 4, 4, 4, 4, 4, 4, 4, 4, 4, 4, 4]"

definition eight_obs :: "(int \<times> buffer \<times> rinfo) list" where
  "eight_obs =
     [(1, idn 2, peerA), (2, idn 3, peerB), (3, idn 4, peerA), (4, idn 5, peerB),
      (5, idn 6, peerA), (6, idn 7, peerB), (7, idn 8, peerA), (8, idn 9, peerB)]"

text \<open>A \<^verbatim>\<open>ping\<close> query from the node with the given id.\<close>

definition ping_from :: "buffer \<Rightarrow> message" where
  "ping_from ident =
     \<lparr>m_t = Some [97, 97], m_y = Some [0x71], m_q = Some (bytes ''ping''),
      m_a = Some \<lparr>a_id = Some (BStr ident), a_target = None, a_info_hash = None,
                  a_token = None, a_port = None\<rparr>\<rparr>"

text \<open>
  A run of a new node: a \<^verbatim>\<open>ping\<close> arrives from the node \<open>id4\<close>, then one from the node
  \<open>id2\<close>, and three queries to the first contact fail, so that contact is cursed three
  times.
\<close>

definition cursed_run :: node where
  "cursed_run =
     run host0
       [Message 1 [] (ping_from id4) peerA, Message 2 [] (ping_from id2) peerB,
        Curse 0 (ascii id4), Curse 0 (ascii id4), Curse 0 (ascii id4)]
       (create id1 6881)"

section \<open>Invariants\<close>

text \<open>
  \<open>confined s s'\<close>: going from \<open>s\<close> to \<open>s'\<close> left the identity of the node, the transaction
  registry, the deferred announces and the set of infohashes of the peer store as they
  were. (The table, the peer lists, the datagrams sent and the events may differ.)
\<close>

definition confined :: "node \<Rightarrow> node \<Rightarrow> bool" where
  "confined s s' =
     (self_id s' = self_id s \<and> nport s' = nport s \<and> K s' = K s \<and> queries s' = queries s \<and>
      timers s' = timers s \<and> next_query s' = next_query s \<and> calls s' = calls s \<and>
      deferred s' = deferred s \<and> dom (peers s') = dom (peers s))"

text \<open>
  The invariant of the transaction registry, which holds in a run for as long as every
  continuation called has returned. Every continuation was called at most once;
  a query object whose continuation was called has no pending timer; timers and calls
  belong to query objects already created; and an entry of \<^verbatim>\<open>queries\<close> under key \<open>k\<close>
  holds a query object whose timer is pending and was created for \<open>k\<close>. While the
  continuation of query object \<open>q\<close>, registered under \<open>kx\<close>, is running (\<open>x = Some q\<close>), the
  entry of \<open>q\<close> itself is exempt.
\<close>

definition registry_ok :: "nat option \<Rightarrow> string \<Rightarrow> node \<Rightarrow> bool" where
  "registry_ok x kx s =
     (distinct (map fst (calls s)) \<and>
      (\<forall>q \<in> fst ` set (calls s). timers s q = None \<and> q < next_query s) \<and>
      (\<forall>q kc. timers s q = Some kc \<longrightarrow> q < next_query s) \<and>
      (\<forall>k q cb. queries s k = Some (q, cb) \<longrightarrow>
         (\<exists>cb'. timers s q = Some (k, cb')) \<or> (x = Some q \<and> k = kx)))"

text \<open>\<open>returned s\<close>: no call of a continuation made so far ended with an exception.\<close>

definition returned :: "node \<Rightarrow> bool" where
  "returned s = list_all (\<lambda>c. snd (snd c) = None) (calls s)"

text \<open>
  The invariant of the routing table in the runs of a node: the table is one bucket
  over the whole space; a bucket with no free slot holds a contact; the keys of its
  contacts are distinct, and each contact is stored under the string of its id.
\<close>

definition table_ok :: "(buffer \<Rightarrow> string) \<Rightarrow> node \<Rightarrow> bool" where
  "table_ok ts s =
     (\<exists>b. buckets s = [One b] \<and> full_range b \<and> (slots b = 0 \<longrightarrow> nodes b \<noteq> []) \<and>
          distinct (map fst (nodes b)) \<and> (\<forall>(k, r) \<in> set (nodes b). k = ts (rid r)))"

text \<open>
  \<open>filling m s\<close>: the table is the one bucket over the whole space with \<open>m\<close> free slots,
  every stored contact is good, and a slot was used only by storing a contact.
\<close>

definition filling :: "nat \<Rightarrow> node \<Rightarrow> bool" where
  "filling m s =
     (\<exists>b. buckets s = [One b] \<and> full_range b \<and> slots b = int m \<and>
          (m < 8 \<longrightarrow> nodes b \<noteq> []) \<and> (\<forall>(k, r) \<in> set (nodes b). good r))"

section \<open>Frame properties\<close>

declare observe.simps [simp del] compare_from.simps [simp del] split_loop.simps [simp del]

text \<open>The routing loop changes nothing but the table.\<close>

lemma observe_frame: "(snd (observe ts now ident ri s))\<lparr>buckets := X\<rparr> = s\<lparr>buckets := X\<rparr>"
proof (induction ts now ident ri s rule: observe.induct)
  case (1 ts now ident ri s)
  show ?case
    by (subst observe.simps)
       (use 1 in \<open>auto split: sum.splits option.splits prod.splits bool.splits\<close>)
qed

lemma observe_fields:
  assumes "observe ts now ident ri s = (eo, s1)"
  shows "self_id s1 = self_id s" "nport s1 = nport s" "K s1 = K s" "peers s1 = peers s"
    "queries s1 = queries s" "timers s1 = timers s" "next_query s1 = next_query s"
    "calls s1 = calls s" "sent s1 = sent s" "emitted s1 = emitted s" "deferred s1 = deferred s"
proof -
  have "s1\<lparr>buckets := []\<rparr> = s\<lparr>buckets := []\<rparr>"
    using observe_frame[where X="[]" and ts=ts and now=now and ident=ident and ri=ri and s=s] assms by simp
  then have "f (s1\<lparr>buckets := []\<rparr>) = f (s\<lparr>buckets := []\<rparr>)" for f :: "node \<Rightarrow> 'a"
    by simp
  from this[of self_id] this[of nport] this[of K] this[of peers] this[of queries]
    this[of timers] this[of next_query] this[of calls] this[of sent] this[of emitted]
    this[of deferred]
  show "self_id s1 = self_id s" "nport s1 = nport s" "K s1 = K s" "peers s1 = peers s"
    "queries s1 = queries s" "timers s1 = timers s" "next_query s1 = next_query s"
    "calls s1 = calls s" "sent s1 = sent s" "emitted s1 = emitted s" "deferred s1 = deferred s"
    by simp_all
qed

lemma confined_refl: "confined s s"
  by (simp add: confined_def)

lemma confined_trans: "confined s s1 \<Longrightarrow> confined s1 s2 \<Longrightarrow> confined s s2"
  by (simp add: confined_def)

lemma observe_confined: "confined s (snd (observe ts now ident ri s))"
  using observe_fields[OF surjective_pairing, of ts now ident ri s]
  by (simp add: confined_def)

lemma processPing_confined:
  "confined s (snd (processPing msg ri s))" "buckets (snd (processPing msg ri s)) = buckets s"
  by (simp_all add: confined_def processPing_def respond_def)

lemma processFindNode_confined:
  "confined s (snd (processFindNode ident msg ri s))"
  "buckets (snd (processFindNode ident msg ri s)) = buckets s"
  by (simp_all add: confined_def processFindNode_def respond_def split: sum.splits)

lemma processGetPeers_confined:
  "confined s (snd (processGetPeers junk a msg ri s))"
  "buckets (snd (processGetPeers junk a msg ri s)) = buckets s"
  by (simp_all add: confined_def processGetPeers_def respond_def Let_def
      split: sum.splits option.splits bval.splits)

lemma processAnnouncePeer_confined:
  "confined s (snd (processAnnouncePeer now a msg ri s))"
  "buckets (snd (processAnnouncePeer now a msg ri s)) = buckets s"
  by (auto simp: confined_def processAnnouncePeer_def respond_def Let_def
      split: sum.splits option.splits bval.splits)

lemma dispatch_confined:
  "confined s1
     (snd (if type = ''ping'' then processPing msg ri s1
           else if type = ''find_node'' then processFindNode ident msg ri s1
           else if type = ''get_peers'' then processGetPeers junk a msg ri s1
           else if type = ''announce_peer'' then processAnnouncePeer now a msg ri s1
           else (None, s1)))"
  by (simp add: processPing_confined processFindNode_confined processGetPeers_confined
      processAnnouncePeer_confined confined_refl)

lemma processRequest_confined: "confined s (snd (processRequest h now junk type msg ri s))"
proof (cases "m_a msg")
  case None
  then show ?thesis by (simp add: processRequest_def confined_refl)
next
  case (Some a)
  show ?thesis
  proof (cases "\<exists>ident. a_id a = Some (BStr ident) \<and> length ident = 20")
    case False
    then show ?thesis using Some
      by (auto simp: processRequest_def confined_refl split: option.splits bval.splits)
  next
    case True
    then obtain ident where i: "a_id a = Some (BStr ident)" "length ident = 20" by blast
    obtain eo s1 where o: "observe (toStr h) now ident ri s = (eo, s1)"
      by (cases "observe (toStr h) now ident ri s")
    have c1: "confined s s1"
      using observe_confined[of s "toStr h" now ident ri] o by simp
    show ?thesis
    proof (cases eo)
      case None
      have "confined s1 (snd (processRequest h now junk type msg ri s))"
        using Some i o None dispatch_confined[of s1 type msg ri ident junk a now]
        by (simp add: processRequest_def)
      with c1 show ?thesis by (rule confined_trans)
    next
      case (Some e)
      then show ?thesis using \<open>m_a msg = Some a\<close> i o c1 by (simp add: processRequest_def)
    qed
  qed
qed

lemma processRequest_buckets:
  "buckets (snd (processRequest h now junk type msg ri s)) = buckets s \<or>
   (\<exists>ident. a_id (the (m_a msg)) = Some (BStr ident) \<and> length ident = 20 \<and>
     buckets (snd (processRequest h now junk type msg ri s))
       = buckets (snd (observe (toStr h) now ident ri s)))"
proof (cases "m_a msg")
  case None
  then show ?thesis by (simp add: processRequest_def)
next
  case (Some a)
  show ?thesis
  proof (cases "\<exists>ident. a_id a = Some (BStr ident) \<and> length ident = 20")
    case False
    then show ?thesis using Some
      by (auto simp: processRequest_def split: option.splits bval.splits)
  next
    case True
    then obtain ident where i: "a_id a = Some (BStr ident)" "length ident = 20" by blast
    obtain eo s1 where o: "observe (toStr h) now ident ri s = (eo, s1)"
      by (cases "observe (toStr h) now ident ri s")
    have "buckets (snd (processRequest h now junk type msg ri s)) = buckets s1"
      using Some i o
      by (cases eo) (simp_all add: processRequest_def processPing_confined
          processFindNode_confined processGetPeers_confined processAnnouncePeer_confined)
    then show ?thesis using Some i o by auto
  qed
qed

section \<open>The transaction registry\<close>

lemma registry_ok_cong:
  "calls s' = calls s \<Longrightarrow> timers s' = timers s \<Longrightarrow> next_query s' = next_query s \<Longrightarrow>
   queries s' = queries s \<Longrightarrow> registry_ok x kx s' = registry_ok x kx s"
  by (simp add: registry_ok_def)

lemma request_registry:
  "calls (request h t ty a cb s) = calls s"
  "next_query (request h t ty a cb s) = Suc (next_query s)"
  by (simp_all add: request_def Let_def)

lemma requests_calls:
  "calls (foldl (\<lambda>s' (target, type, a, cb). request h target type a cb s') s rs) = calls s"
  by (induction rs arbitrary: s) (auto simp: request_registry)

lemma invoke_calls:
  "fst (invoke h q err cb s) = outcome cb"
  "calls (snd (invoke h q err cb s)) = calls s @ [(q, err, outcome cb)]"
  by (simp_all add: invoke_def requests_calls)

lemma request_ok:
  assumes ok: "registry_ok x kx s" and x: "\<And>q. x = Some q \<Longrightarrow> q < next_query s"
  shows "registry_ok x kx (request h t ty a cb s)"
proof -
  let ?n = "next_query s"
  let ?key = "hex [fst (random h ?n), snd (random h ?n)]"
  have t: "timers (request h t ty a cb s) = (timers s)(?n \<mapsto> (?key, cb))"
    and q: "queries (request h t ty a cb s) = (queries s)(?key \<mapsto> (?n, cb))"
    by (simp_all add: request_def Let_def)
  from ok have fresh: "timers s ?n = None"
    unfolding registry_ok_def by (metis less_irrefl option.exhaust)
  from ok have d: "distinct (map fst (calls s))"
    and c: "\<forall>q \<in> fst ` set (calls s). timers s q = None \<and> q < ?n"
    and tm: "\<forall>q kc. timers s q = Some kc \<longrightarrow> q < ?n"
    and qs: "\<forall>k q cb. queries s k = Some (q, cb) \<longrightarrow>
         (\<exists>cb'. timers s q = Some (k, cb')) \<or> (x = Some q \<and> k = kx)"
    unfolding registry_ok_def by simp_all
  show ?thesis
    unfolding registry_ok_def request_registry t q
  proof (intro conjI)
    show "distinct (map fst (calls s))" by (rule d)
    show "\<forall>q\<in>fst ` set (calls s). ((timers s)(?n \<mapsto> (?key, cb))) q = None \<and> q < Suc ?n"
      using c by fastforce
    show "\<forall>q kc. ((timers s)(?n \<mapsto> (?key, cb))) q = Some kc \<longrightarrow> q < Suc ?n"
      using tm by (auto simp: less_Suc_eq)
    show "\<forall>k q cb'. ((queries s)(?key \<mapsto> (?n, cb))) k = Some (q, cb') \<longrightarrow>
        (\<exists>cb''. ((timers s)(?n \<mapsto> (?key, cb))) q = Some (k, cb'')) \<or> x = Some q \<and> k = kx"
    proof (intro allI impI)
      fix k q cb'
      assume e: "((queries s)(?key \<mapsto> (?n, cb))) k = Some (q, cb')"
      show "(\<exists>cb''. ((timers s)(?n \<mapsto> (?key, cb))) q = Some (k, cb'')) \<or> x = Some q \<and> k = kx"
      proof (cases "k = ?key")
        case True
        with e show ?thesis by simp
      next
        case False
        with e have "queries s k = Some (q, cb')" by simp
        with qs have "(\<exists>cb'. timers s q = Some (k, cb')) \<or> (x = Some q \<and> k = kx)" by blast
        then show ?thesis using fresh by (cases "q = ?n") auto
      qed
    qed
  qed
qed

lemma requests_ok:
  "registry_ok x kx s \<Longrightarrow> (\<And>q. x = Some q \<Longrightarrow> q < next_query s) \<Longrightarrow>
   registry_ok x kx (foldl (\<lambda>s' (target, type, a, cb). request h target type a cb s') s rs)"
proof (induction rs arbitrary: s)
  case Nil
  then show ?case by simp
next
  case (Cons r rs)
  obtain t ty a cb where r: "r = (t, ty, a, cb)" by (cases r)
  have "registry_ok x kx (request h t ty a cb s)"
    using Cons.prems by (intro request_ok)
  moreover have "\<And>q. x = Some q \<Longrightarrow> q < next_query (request h t ty a cb s)"
    using Cons.prems(2) by (simp add: request_registry less_Suc_eq)
  ultimately show ?case using Cons.IH[of "request h t ty a cb s"] r by simp
qed

lemma registry_okD:
  "registry_ok x kx s \<Longrightarrow> queries s k = Some (q, cb) \<Longrightarrow>
   (\<exists>cb'. timers s q = Some (k, cb')) \<or> (x = Some q \<and> k = kx)"
  unfolding registry_ok_def by blast

lemma registry_ok_queries:
  assumes "registry_ok x kx s"
    and "\<And>k q cb. queries s' k = Some (q, cb) \<Longrightarrow>
           (\<exists>cb'. timers s q = Some (k, cb')) \<or> (y = Some q \<and> k = ky)"
    and "calls s' = calls s" "timers s' = timers s" "next_query s' = next_query s"
  shows "registry_ok y ky s'"
  using assms unfolding registry_ok_def by simp

lemma begin_call:
  assumes ok: "registry_ok None k0 s" and t: "timers s q = Some (key, cb)"
  shows "registry_ok (Some q) key (s\<lparr>timers := (timers s)(q := None), calls := calls s @ [(q, err, out)]\<rparr>)"
    and "q < next_query s"
proof -
  from ok have d: "distinct (map fst (calls s))"
    and c: "\<forall>q \<in> fst ` set (calls s). timers s q = None \<and> q < next_query s"
    and tm: "\<forall>q kc. timers s q = Some kc \<longrightarrow> q < next_query s"
    and qs: "\<forall>k q cb. queries s k = Some (q, cb) \<longrightarrow> (\<exists>cb'. timers s q = Some (k, cb'))"
    unfolding registry_ok_def by simp_all
  from tm t show lt: "q < next_query s" by blast
  from c t have notin: "q \<notin> fst ` set (calls s)" by force
  show "registry_ok (Some q) key (s\<lparr>timers := (timers s)(q := None), calls := calls s @ [(q, err, out)]\<rparr>)"
    unfolding registry_ok_def
  proof (intro conjI)
    show "distinct (map fst (calls (s\<lparr>timers := (timers s)(q := None), calls := calls s @ [(q, err, out)]\<rparr>)))"
      using d notin by simp
    show "\<forall>q'\<in>fst ` set (calls (s\<lparr>timers := (timers s)(q := None), calls := calls s @ [(q, err, out)]\<rparr>)).
        timers (s\<lparr>timers := (timers s)(q := None), calls := calls s @ [(q, err, out)]\<rparr>) q' = None \<and>
        q' < next_query (s\<lparr>timers := (timers s)(q := None), calls := calls s @ [(q, err, out)]\<rparr>)"
      using c lt by auto
    show "\<forall>q' kc. timers (s\<lparr>timers := (timers s)(q := None), calls := calls s @ [(q, err, out)]\<rparr>) q' = Some kc \<longrightarrow>
        q' < next_query (s\<lparr>timers := (timers s)(q := None), calls := calls s @ [(q, err, out)]\<rparr>)"
      using tm by (auto split: if_splits)
    show "\<forall>k q' cb. queries (s\<lparr>timers := (timers s)(q := None), calls := calls s @ [(q, err, out)]\<rparr>) k = Some (q', cb) \<longrightarrow>
        (\<exists>cb'. timers (s\<lparr>timers := (timers s)(q := None), calls := calls s @ [(q, err, out)]\<rparr>) q' = Some (k, cb')) \<or>
        Some q = Some q' \<and> k = key"
    proof (intro allI impI)
      fix k q' cb'
      assume "queries (s\<lparr>timers := (timers s)(q := None), calls := calls s @ [(q, err, out)]\<rparr>) k = Some (q', cb')"
      then have "queries s k = Some (q', cb')" by simp
      with qs obtain cb'' where "timers s q' = Some (k, cb'')" by blast
      then show "(\<exists>cb'. timers (s\<lparr>timers := (timers s)(q := None), calls := calls s @ [(q, err, out)]\<rparr>) q' = Some (k, cb')) \<or>
        Some q = Some q' \<and> k = key"
        using t by (cases "q' = q") auto
    qed
  qed
qed

lemma invoke_ok:
  assumes ok: "registry_ok None k0 s" and t: "timers s q = Some (key, cb)"
  shows "registry_ok (Some q) key (snd (invoke h q err cb' (s\<lparr>timers := (timers s)(q := None)\<rparr>)))"
proof -
  have "registry_ok (Some q) key
          (foldl (\<lambda>s' (target, type, a, cb). request h target type a cb s')
             (s\<lparr>timers := (timers s)(q := None), calls := calls s @ [(q, err, outcome cb')]\<rparr>)
             (body cb'))"
    using begin_call[OF ok t] by (intro requests_ok) simp_all
  then show ?thesis by (simp add: invoke_def)
qed

lemma end_call:
  assumes "registry_ok (Some q) key s1"
  shows "registry_ok None k0 (s1\<lparr>queries := (queries s1)(key := None)\<rparr>)"
proof (rule registry_ok_queries[OF assms])
  fix k q' cb
  assume "queries (s1\<lparr>queries := (queries s1)(key := None)\<rparr>) k = Some (q', cb)"
  then have "k \<noteq> key" "queries s1 k = Some (q', cb)"
    by (auto split: if_splits)
  with registry_okD[OF assms, of k q' cb]
  show "(\<exists>cb'. timers s1 q' = Some (k, cb')) \<or> None = Some q' \<and> k = k0"
    by simp
qed simp_all

lemma thrown_not_returned:
  "calls s1 = cs @ [(q, err, Some e)] \<Longrightarrow> \<not> returned s1"
  by (simp add: returned_def)

lemma returned_prefix: "calls s' = calls s @ cs \<Longrightarrow> returned s' \<Longrightarrow> returned s"
  by (simp add: returned_def)

text \<open>
  If the continuation called by the response branch returns, the branch re-establishes
  the invariant.
\<close>

lemma resolve_ok:
  assumes ok: "registry_ok None k0 s" and r: "returned (snd (resolve h msg s))"
  shows "registry_ok None k0 (snd (resolve h msg s))"
proof (cases "m_t msg")
  case None
  then show ?thesis using ok by (simp add: resolve_def)
next
  case (Some t)
  show ?thesis
  proof (cases "queries s (hex t)")
    case None
    then show ?thesis using ok Some by (simp add: resolve_def)
  next
    case qc: (Some qc)
    obtain q cb where [simp]: "qc = (q, cb)" by (cases qc)
    from registry_okD[OF ok, of "hex t" q cb] qc
    obtain cb' where t: "timers s q = Some (hex t, cb')"
      by auto
    let ?i = "invoke h q False cb (s\<lparr>timers := (timers s)(q := None)\<rparr>)"
    show ?thesis
    proof (cases "outcome cb")
      case e: (Some e)
      then have "snd (resolve h msg s) = snd ?i"
        using Some qc invoke_calls(1)[of h q False cb "s\<lparr>timers := (timers s)(q := None)\<rparr>"]
        by (cases ?i) (simp add: resolve_def)
      then have "\<not> returned (snd (resolve h msg s))"
        using thrown_not_returned[of "snd ?i" "calls s" q False e] e
        by (simp add: invoke_calls(2))
      with r show ?thesis by simp
    next
      case n: None
      then have "snd (resolve h msg s) = (snd ?i)\<lparr>queries := (queries (snd ?i))(hex t := None)\<rparr>"
        using Some qc invoke_calls(1)[of h q False cb "s\<lparr>timers := (timers s)(q := None)\<rparr>"]
        by (cases ?i) (simp add: resolve_def)
      then show ?thesis using end_call[OF invoke_ok[OF ok t, of h False cb], of k0] by simp
    qed
  qed
qed

lemma resolve_calls: "\<exists>cs. calls (snd (resolve h msg s)) = calls s @ cs"
proof (cases "m_t msg")
  case None
  then show ?thesis by (simp add: resolve_def)
next
  case (Some t)
  show ?thesis
  proof (cases "queries s (hex t)")
    case None
    then show ?thesis using Some by (simp add: resolve_def)
  next
    case qc: (Some qc)
    obtain q cb where [simp]: "qc = (q, cb)" by (cases qc)
    let ?i = "invoke h q False cb (s\<lparr>timers := (timers s)(q := None)\<rparr>)"
    have "calls (snd (resolve h msg s)) = calls (snd ?i)"
      using Some qc by (cases ?i) (auto simp: resolve_def split: option.splits)
    then show ?thesis by (simp add: invoke_calls(2))
  qed
qed

text \<open>The same for a response timer.\<close>

lemma fire_ok:
  assumes ok: "registry_ok None k0 s" and r: "returned (snd (fire h q s))"
  shows "registry_ok None k0 (snd (fire h q s))"
proof (cases "timers s q")
  case None
  then show ?thesis using ok by (simp add: fire_def)
next
  case (Some kc)
  obtain key cb where [simp]: "kc = (key, cb)" by (cases kc)
  obtain s1 where i: "invoke h q True cb (s\<lparr>timers := (timers s)(q := None)\<rparr>) = (outcome cb, s1)"
    using invoke_calls(1)[of h q True cb "s\<lparr>timers := (timers s)(q := None)\<rparr>"]
    by (cases "invoke h q True cb (s\<lparr>timers := (timers s)(q := None)\<rparr>)") auto
  have s1: "registry_ok (Some q) key s1"
    using invoke_ok[OF ok, of q key cb h True cb] Some i by simp
  have c1: "calls s1 = calls s @ [(q, True, outcome cb)]"
    using invoke_calls(2)[of h q True cb "s\<lparr>timers := (timers s)(q := None)\<rparr>"] i by simp
  show ?thesis
  proof (cases "outcome cb")
    case e: (Some e)
    then have "snd (fire h q s) = s1"
      using Some i by (simp add: fire_def)
    then have "\<not> returned (snd (fire h q s))"
      using thrown_not_returned[of s1 "calls s" q True e] e c1 by simp
    with r show ?thesis by simp
  next
    case n: None
    show ?thesis
    proof (cases "\<exists>cb'. queries s1 key = Some (q, cb')")
      case True
      then have "snd (fire h q s) = s1\<lparr>queries := (queries s1)(key := None)\<rparr>"
        using Some i n by (auto simp: fire_def)
      then show ?thesis using end_call[OF s1] by simp
    next
      case False
      then have f: "snd (fire h q s) = s1"
        using Some i n by (auto simp: fire_def split: option.splits)
      have "registry_ok None k0 s1"
      proof (rule registry_ok_queries[OF s1])
        fix k q' cb'
        assume "queries s1 k = Some (q', cb')"
        with registry_okD[OF s1, of k q' cb'] False
        show "(\<exists>cb'. timers s1 q' = Some (k, cb')) \<or> None = Some q' \<and> k = k0"
          by auto
      qed simp_all
      then show ?thesis using f by simp
    qed
  qed
qed

lemma fire_calls: "\<exists>cs. calls (snd (fire h q s)) = calls s @ cs"
proof (cases "timers s q")
  case None
  then show ?thesis by (simp add: fire_def)
next
  case (Some kc)
  obtain key cb where [simp]: "kc = (key, cb)" by (cases kc)
  let ?i = "invoke h q True cb (s\<lparr>timers := (timers s)(q := None)\<rparr>)"
  have "calls (snd (fire h q s)) = calls (snd ?i)"
    using Some by (cases ?i) (auto simp: fire_def split: option.splits)
  then show ?thesis by (simp add: invoke_calls(2))
qed

lemma confined_registry_ok:
  "confined s s' \<Longrightarrow> registry_ok x kx s \<Longrightarrow> registry_ok x kx s'"
  by (simp add: confined_def registry_ok_def)

lemma catch_registry_ok: "registry_ok x kx (snd r) \<Longrightarrow> registry_ok x kx (catch r)"
  by (cases r) (auto simp: catch_def registry_ok_def split: option.splits)

lemma catch_calls: "calls (catch r) = calls (snd r)"
  by (cases r) (auto simp: catch_def split: option.splits)

lemma onmessage_ok:
  assumes ok: "registry_ok None k0 s" and r: "returned (onmessage h now junk msg ri s)"
  shows "registry_ok None k0 (onmessage h now junk msg ri s)"
proof (cases "m_y msg = Some [0x72]")
  case True
  then have o: "onmessage h now junk msg ri s = catch (resolve h msg s)"
    by (simp add: onmessage_def)
  with r have "returned (snd (resolve h msg s))"
    by (simp add: returned_def catch_calls)
  then show ?thesis unfolding o by (intro catch_registry_ok resolve_ok ok)
next
  case False
  then show ?thesis
    unfolding onmessage_def
    by (intro catch_registry_ok)
       (auto simp: ok confined_registry_ok[OF processRequest_confined ok] split: option.splits)
qed

lemma onmessage_calls: "\<exists>cs. calls (onmessage h now junk msg ri s) = calls s @ cs"
proof (cases "m_y msg = Some [0x72]")
  case True
  then show ?thesis using resolve_calls[of h msg s] by (simp add: onmessage_def catch_calls)
next
  case False
  then show ?thesis
    using processRequest_confined[of s h now junk _ msg ri]
    by (auto simp: onmessage_def catch_calls confined_def split: option.splits)
qed

lemma request_ok0: "registry_ok None k0 s \<Longrightarrow> registry_ok None k0 (request h t ty a cb s)"
  by (rule request_ok) simp_all

lemma send_ok: "registry_ok None k0 s \<Longrightarrow> registry_ok None k0 (snd (send h t tok cb s))"
  by (auto simp: send_def request_ok0 split: sum.splits)

lemma send_calls: "calls (snd (send h t tok cb s)) = calls s"
  by (auto simp: send_def request_registry split: sum.splits)

lemma deferred_update_ok:
  "registry_ok x kx (s\<lparr>deferred := d\<rparr>) = registry_ok x kx s"
  "registry_ok x kx (s\<lparr>nport := p\<rparr>) = registry_ok x kx s"
  "registry_ok x kx (s\<lparr>emitted := e\<rparr>) = registry_ok x kx s"
  "registry_ok x kx (s\<lparr>buckets := b\<rparr>) = registry_ok x kx s"
  by (simp_all add: registry_ok_def)

lemma sendAnnouncePeer_ok:
  "registry_ok None k0 s \<Longrightarrow> registry_ok None k0 (snd (sendAnnouncePeer h t tok p cb s))"
  by (simp add: sendAnnouncePeer_def send_ok deferred_update_ok)

lemma run_deferred_ok:
  "registry_ok None k0 s \<Longrightarrow> registry_ok None k0 (snd (run_deferred h ds s))"
proof (induction ds arbitrary: s)
  case Nil
  then show ?case by simp
next
  case (Cons d ds)
  obtain t tok cb where d: "d = (t, tok, cb)" by (cases d)
  have "registry_ok None k0 (snd (send h t tok cb (s\<lparr>deferred := ds\<rparr>)))"
    using Cons.prems by (intro send_ok) (simp add: deferred_update_ok)
  then show ?case
    using Cons.IH[of "snd (send h t tok cb (s\<lparr>deferred := ds\<rparr>))"] d
    by (auto split: prod.splits option.splits)
qed

lemma run_deferred_calls: "calls (snd (run_deferred h ds s)) = calls s"
proof (induction ds arbitrary: s)
  case Nil
  then show ?case by simp
next
  case (Cons d ds)
  obtain t tok cb where d: "d = (t, tok, cb)" by (cases d)
  have "calls (snd (send h t tok cb (s\<lparr>deferred := ds\<rparr>))) = calls s"
    by (simp add: send_calls)
  then show ?case
    using Cons.IH[of "snd (send h t tok cb (s\<lparr>deferred := ds\<rparr>))"] d
    by (auto split: prod.splits option.splits)
qed

lemma listening_ok:
  "registry_ok None k0 s \<Longrightarrow> registry_ok None k0 (snd (listening h p s))"
  unfolding listening_def by (intro run_deferred_ok) (simp add: registry_ok_def)

lemma on_contact_ok:
  "registry_ok None k0 s \<Longrightarrow> registry_ok None k0 (on_contact f i k s)"
  by (auto simp: on_contact_def deferred_update_ok split: slot.splits)

lemma on_contact_calls: "calls (on_contact f i k s) = calls s"
  by (auto simp: on_contact_def split: slot.splits)

lemma step_ok:
  "registry_ok None k0 s \<Longrightarrow> returned (step h s inp) \<Longrightarrow> registry_ok None k0 (step h s inp)"
  by (cases inp)
     (simp_all add: onmessage_ok fire_ok sendPing_def sendFindNode_def sendGetPeers_def
        request_ok0 sendAnnouncePeer_ok listening_ok on_contact_ok)

lemma step_calls: "\<exists>cs. calls (step h s inp) = calls s @ cs"
  by (cases inp)
     (simp_all add: onmessage_calls fire_calls sendPing_def sendFindNode_def sendGetPeers_def
        request_registry sendAnnouncePeer_def send_calls listening_def run_deferred_calls
        on_contact_calls)

lemma run_snoc: "run h (inps @ [inp]) s = step h (run h inps s) inp"
  by (simp add: run_def)

lemma run_ok:
  "registry_ok None k0 s \<Longrightarrow> returned (run h inps s) \<Longrightarrow> registry_ok None k0 (run h inps s)"
proof (induction inps rule: rev_induct)
  case Nil
  then show ?case by (simp add: run_def)
next
  case (snoc inp inps)
  obtain cs where "calls (step h (run h inps s) inp) = calls (run h inps s) @ cs"
    using step_calls by blast
  then have "returned (run h inps s)"
    using snoc.prems(2) unfolding run_snoc by (rule returned_prefix)
  with snoc have "registry_ok None k0 (run h inps s)" by simp
  then show ?case using snoc.prems(2) unfolding run_snoc by (rule step_ok)
qed

lemma create_ok: "registry_ok None k0 (create ident p)"
  by (simp add: registry_ok_def create_def)

text \<open>
  As long as no continuation has thrown, no query object's continuation was called
  twice, whatever the inputs (queries sent, datagrams received, response timers firing,
  in any order) and whatever the random transaction ids, equal ones included.
\<close>

lemma returning_continuations_called_once:
  "returned (run h inps (create ident p)) \<Longrightarrow>
   distinct (map fst (calls (run h inps (create ident p))))"
  using run_ok[OF create_ok[of "[]" ident p], of h inps]
  by (simp add: registry_ok_def)

text \<open>
  An event that finds its query object calls the continuation, whether or not the call
  returns: a response calls the continuation registered under its transaction id, and a
  pending timer calls the continuation it was created with.
\<close>

lemma resolve_invokes:
  assumes "m_t msg = Some t" "queries s (hex t) = Some (q, cb)"
  shows "calls (snd (resolve h msg s)) = calls s @ [(q, False, outcome cb)]"
proof -
  let ?i = "invoke h q False cb (s\<lparr>timers := (timers s)(q := None)\<rparr>)"
  have "calls (snd (resolve h msg s)) = calls (snd ?i)"
    using assms by (cases ?i) (auto simp: resolve_def split: option.splits)
  then show ?thesis by (simp add: invoke_calls(2))
qed

lemma fire_invokes:
  assumes "timers s q = Some (key, cb)"
  shows "calls (snd (fire h q s)) = calls s @ [(q, True, outcome cb)]"
proof -
  let ?i = "invoke h q True cb (s\<lparr>timers := (timers s)(q := None)\<rparr>)"
  have "calls (snd (fire h q s)) = calls (snd ?i)"
    using assms by (cases ?i) (auto simp: fire_def split: option.splits)
  then show ?thesis by (simp add: invoke_calls(2))
qed

text \<open>
  C2 (the code departs from the claim). The response branch of \<^verbatim>\<open>onmessage\<close> removes the
  entry of a query only after its continuation has returned, so a query whose
  continuation throws stays registered. A node sends one \<^verbatim>\<open>get_peers\<close> whose continuation
  throws (as does every continuation that goes on to call \<^verbatim>\<open>sendAnnouncePeer\<close> on a bound
  node). The response arrives: the continuation is called, its exception is caught by
  \<^verbatim>\<open>onmessage\<close> and emitted, and the entry stays in \<^verbatim>\<open>queries\<close>. The same response arrives
  a second time and the continuation of the same query object is called again.
\<close>

theorem throwing_continuation_called_twice:
  "calls (run host0
     [GetPeers peerA id2 (Raise [] ReferenceError), Message 10 [] reply00 peerA,
      Message 20 [] reply00 peerA] (create id1 6881))
     = [(0, False, Some ReferenceError), (0, False, Some ReferenceError)] \<and>
   emitted (run host0
     [GetPeers peerA id2 (Raise [] ReferenceError), Message 10 [] reply00 peerA,
      Message 20 [] reply00 peerA] (create id1 6881))
     = [Error ReferenceError, Error ReferenceError] \<and>
   queries (run host0
     [GetPeers peerA id2 (Raise [] ReferenceError), Message 10 [] reply00 peerA,
      Message 20 [] reply00 peerA] (create id1 6881)) ''0000''
     = Some (0, Raise [] ReferenceError)"
  by (simp add: run_def create_def sendGetPeers_def request_def Let_def host0_def hex_def
      hexdigit_def onmessage_def reply00_def resolve_def invoke_def catch_def)

text \<open>
  Two runs in which requests draw the same transaction id \<^verbatim>\<open>0000\<close>; every continuation
  returns. In the first, a ping to one node and then a ping to another are outstanding
  under the id: the response of the first node resolves the second query, the timer of
  the first query then calls the first with the timeout error, and the cancelled timer
  of the second and a repeated response call nothing. In the
  second, the continuation of a ping issues a ping that draws the id being resolved: the
  \<^verbatim>\<open>delete\<close> after the call removes the entry of the new query, so the response to it
  calls nothing and its timer calls it with the timeout error.
\<close>

lemma collision_run:
  "calls (run host_same
     [Ping peerA (Cont []), Ping peerB (Cont []), Message 10 [] reply00 peerA, Timeout 0,
      Timeout 1, Message 20 [] reply00 peerA] (create id1 6881))
     = [(1, False, None), (0, True, None)]"
  by (simp add: run_def create_def sendPing_def request_def Let_def host_same_def hex_def
      hexdigit_def onmessage_def reply00_def resolve_def invoke_def catch_def fire_def)

lemma reentrant_collision_run:
  "calls (run host_same
     [Ping peerA (Cont [(peerA, ''ping'', PingArgs id1, Cont [])]),
      Message 10 [] reply00 peerA, Message 20 [] reply00 peerA, Timeout 1]
     (create id1 6881))
     = [(0, False, None), (1, True, None)]"
  by (simp add: run_def create_def sendPing_def request_def Let_def host_same_def hex_def
      hexdigit_def onmessage_def reply00_def resolve_def invoke_def catch_def fire_def)

section \<open>The peer store\<close>

lemma ascii_bytes: "ascii (bytes str) = str"
  by (induction str) (simp_all add: ascii_def bytes_def)

lemma request_peers: "peers (request h t ty a cb s) = peers s"
  by (simp add: request_def Let_def)

lemma requests_peers:
  "peers (foldl (\<lambda>s' (target, type, a, cb). request h target type a cb s') s rs) = peers s"
  by (induction rs arbitrary: s) (auto simp: request_peers)

lemma invoke_peers: "invoke h q err cb s = (r, s1) \<Longrightarrow> peers s1 = peers s"
  by (auto simp: invoke_def requests_peers)

lemma resolve_peers: "peers (snd (resolve h msg s)) = peers s"
  by (auto simp: resolve_def split: option.splits prod.splits dest!: invoke_peers)

lemma fire_peers: "peers (snd (fire h q s)) = peers s"
  by (auto simp: fire_def split: option.splits prod.splits dest!: invoke_peers)

lemma catch_peers: "peers (catch r) = peers (snd r)"
  by (cases r) (auto simp: catch_def split: option.splits)

lemma onmessage_peers_dom: "dom (peers (onmessage h now junk msg ri s)) = dom (peers s)"
  using processRequest_confined[of s h now junk _ msg ri]
  by (auto simp: onmessage_def catch_peers resolve_peers confined_def split: option.splits)

lemma send_peers: "peers (snd (send h t tok cb s)) = peers s"
  by (auto simp: send_def request_peers split: sum.splits)

lemma run_deferred_peers: "peers (snd (run_deferred h ds s)) = peers s"
proof (induction ds arbitrary: s)
  case Nil
  then show ?case by simp
next
  case (Cons d ds)
  obtain t tok cb where d: "d = (t, tok, cb)" by (cases d)
  have "peers (snd (send h t tok cb (s\<lparr>deferred := ds\<rparr>))) = peers s"
    by (simp add: send_peers)
  then show ?case
    using Cons.IH[of "snd (send h t tok cb (s\<lparr>deferred := ds\<rparr>))"] d
    by (auto split: prod.splits option.splits)
qed

lemma step_peers_dom: "dom (peers (step h s inp)) = dom (peers s)"
  by (cases inp)
     (auto simp: onmessage_peers_dom fire_peers sendPing_def sendFindNode_def sendGetPeers_def
        request_peers sendAnnouncePeer_def send_peers listening_def run_deferred_peers
        on_contact_def split: slot.splits)

lemma run_peers_dom: "dom (peers (run h inps s)) = dom (peers s)"
  unfolding run_def by (induction inps arbitrary: s) (simp_all add: step_peers_dom)

lemma run_create_peers: "peers (run h inps (create ident p)) k = None"
  using run_peers_dom[of h inps "create ident p"]
  by (auto simp: create_def)

text \<open>
  In every run of a node the peer store holds no list: \<^verbatim>\<open>this.peers\<close> starts empty and no
  operation adds a key to it.
\<close>

theorem peer_store_stays_empty:
  "peers (run h inps (create ident p)) = Map.empty"
  using run_peers_dom[of h inps "create ident p"]
  by (simp add: create_def)

lemma processAnnouncePeer_absent:
  assumes "a_token a = Some (BStr tok)" "a_info_hash a = Some (BStr ih)" "length ih = 20"
    "peers s (hex ih) = None"
  shows "processAnnouncePeer now a msg ri s = (Some TypeError, s)"
  using assms by (simp add: processAnnouncePeer_def verifyToken_def Let_def)

text \<open>
  C9. Take any state \<open>s\<close> a new node can reach, and an \<^verbatim>\<open>announce_peer\<close> query with a
  20-byte sender id, a token that is a byte string (every such token verifies) and a
  20-byte \<^verbatim>\<open>info_hash\<close>. The peer store of \<open>s\<close> holds no list for any infohash, because no
  operation adds a key to \<^verbatim>\<open>this.peers\<close>; so the handler throws a TypeError at
  \<^verbatim>\<open>peers.some\<close>, in the state it was called in. For the whole of \<^verbatim>\<open>onmessage\<close>: the peer
  store is unchanged, no datagram is sent, and the only event is the \<^verbatim>\<open>error\<close> event
  of the \<^verbatim>\<open>catch\<close> clause (no \<^verbatim>\<open>peer:new\<close>).
\<close>

theorem first_announce_throws:
  assumes "m_y msg \<noteq> Some [0x72]" "m_q msg = Some q" "toStr h q = ''announce_peer''"
    "m_a msg = Some a" "a_id a = Some (BStr sender)" "length sender = 20"
    "a_token a = Some (BStr tok)" "a_info_hash a = Some (BStr ih)" "length ih = 20"
    "s = run h inps (create ident p)"
  shows "processAnnouncePeer now a msg ri s = (Some TypeError, s) \<and>
         peers (onmessage h now junk msg ri s) = peers s \<and>
         sent (onmessage h now junk msg ri s) = sent s \<and>
         (\<exists>e. emitted (onmessage h now junk msg ri s) = emitted s @ [Error e])"
proof -
  have none: "peers t (hex ih) = None" if "peers t = peers s" for t
    using that assms(10) run_create_peers by simp
  obtain eo s1 where o: "observe (toStr h) now sender ri s = (eo, s1)"
    by (cases "observe (toStr h) now sender ri s")
  note f = observe_fields[OF o]
  have pr: "processRequest h now junk ''announce_peer'' msg ri s
        = (case eo of Some e \<Rightarrow> (Some e, s1) | None \<Rightarrow> (Some TypeError, s1))"
    using assms(4-9) o processAnnouncePeer_absent[OF assms(7-9) none[OF f(4)], of now msg ri]
    by (simp add: processRequest_def split: option.splits)
  have "onmessage h now junk msg ri s
        = s1\<lparr>emitted := emitted s1 @ [Error (case eo of Some e \<Rightarrow> e | None \<Rightarrow> TypeError)]\<rparr>"
    using assms(1-3) pr by (simp add: onmessage_def catch_def split: option.splits)
  then show ?thesis
    using f processAnnouncePeer_absent[OF assms(7-9) none[OF refl], of now msg ri]
    by simp
qed

theorem first_announce_throws_witness:
  "m_y announce1 \<noteq> Some [0x72] \<and> m_q announce1 = Some (bytes ''announce_peer'') \<and>
   toStr host0 (bytes ''announce_peer'') = ''announce_peer'' \<and>
   length id2 = 20 \<and> length id3 = 20 \<and>
   processAnnouncePeer 5 (the (m_a announce1)) announce1 peerA (run host0 [] (create id1 6881))
     = (Some TypeError, run host0 [] (create id1 6881)) \<and>
   peers (onmessage host0 5 [] announce1 peerA (run host0 [] (create id1 6881)))
     = peers (run host0 [] (create id1 6881)) \<and>
   sent (onmessage host0 5 [] announce1 peerA (run host0 [] (create id1 6881)))
     = sent (run host0 [] (create id1 6881)) \<and>
   (\<exists>e. emitted (onmessage host0 5 [] announce1 peerA (run host0 [] (create id1 6881)))
     = emitted (run host0 [] (create id1 6881)) @ [Error e])"
proof -
  have h1: "m_y announce1 \<noteq> Some [0x72]" and h2: "m_q announce1 = Some (bytes ''announce_peer'')"
    and h4: "m_a announce1 = Some (the (m_a announce1))"
    and h5: "a_id (the (m_a announce1)) = Some (BStr id2)"
    and h7: "a_token (the (m_a announce1)) = Some (BStr [0, 0, 0, 0])"
    and h8: "a_info_hash (the (m_a announce1)) = Some (BStr id3)"
    by (simp_all add: announce1_def)
  have h3: "toStr host0 (bytes ''announce_peer'') = ''announce_peer''"
    by (simp add: host0_def ascii_bytes)
  have h6: "length id2 = 20" and h9: "length id3 = 20"
    by (simp_all add: id2_def id3_def)
  show ?thesis
    using first_announce_throws[OF h1 h2 h3 h4 h5 h6 h7 h8 h9 refl,
        where now=5 and ri=peerA and junk="[]" and inps="[]" and ident=id1 and p=6881]
      h1 h2 h3 h6 h9
    by simp
qed

lemma same_peer_iff: "same_peer addr p x = (paddress x = addr)"
  by (simp add: same_peer_def)

lemma renew_existing_split:
  assumes "\<exists>x\<in>set ps. paddress x = addr"
  shows "\<exists>pre x post. ps = pre @ x # post \<and> (\<forall>y\<in>set pre. paddress y \<noteq> addr) \<and>
           paddress x = addr \<and>
           renew_existing addr p now ps = pre @ x\<lparr>ptimeout := Some (now + 3600000)\<rparr> # post"
  using assms
proof (induction ps)
  case Nil
  then show ?case by simp
next
  case (Cons a ps)
  show ?case
  proof (cases "paddress a = addr")
    case True
    then have "a # ps = [] @ a # ps \<and> (\<forall>y\<in>set []. paddress y \<noteq> addr) \<and> paddress a = addr \<and>
        renew_existing addr p now (a # ps) = [] @ a\<lparr>ptimeout := Some (now + 3600000)\<rparr> # ps"
      by (simp add: same_peer_iff renew_def peer_timeout_def)
    then show ?thesis by blast
  next
    case False
    with Cons.prems have "\<exists>x\<in>set ps. paddress x = addr" by auto
    from Cons.IH[OF this] obtain pre x post where
      *: "ps = pre @ x # post" "\<forall>y\<in>set pre. paddress y \<noteq> addr" "paddress x = addr"
         "renew_existing addr p now ps = pre @ x\<lparr>ptimeout := Some (now + 3600000)\<rparr> # post"
      by blast
    have "a # ps = (a # pre) @ x # post \<and> (\<forall>y\<in>set (a # pre). paddress y \<noteq> addr) \<and>
        paddress x = addr \<and>
        renew_existing addr p now (a # ps) = (a # pre) @ x\<lparr>ptimeout := Some (now + 3600000)\<rparr> # post"
      using * False by (simp add: same_peer_iff)
    then show ?thesis by blast
  qed
qed

lemma list_ex_same_peer: "list_ex (same_peer addr p) ps = (\<exists>x\<in>set ps. paddress x = addr)"
  by (simp add: list_ex_iff same_peer_iff)

lemma processAnnouncePeer_emits:
  assumes "emitted (snd (processAnnouncePeer now a msg ri s)) \<noteq> emitted s"
  shows "\<exists>ih ps. a_info_hash a = Some (BStr ih) \<and> peers s (hex ih) = Some ps \<and>
            (\<forall>x\<in>set ps. paddress x \<noteq> address ri)"
  using assms
  by (auto simp: processAnnouncePeer_def Let_def respond_def list_ex_same_peer
      split: option.splits bval.splits if_splits)

text \<open>
  C7. Let the peer store hold a list for the announced infohash, with a record whose
  address is the announcing address. Then \<^verbatim>\<open>processAnnouncePeer\<close> returns normally; the
  first record with that address gets a new expiry timer of one hour from now and every
  other record is untouched, so the list keeps its length (no second record); no event
  is emitted; and the response is sent. Moreover, whenever \<^verbatim>\<open>processAnnouncePeer\<close> emits
  an event (the only one it emits is \<^verbatim>\<open>peer:new\<close>), the list for the infohash held no record
  with the announcing address before.
\<close>

theorem reannounce_renews:
  assumes "a_token a = Some (BStr tok)" "a_info_hash a = Some (BStr ih)" "length ih = 20"
    "peers s (hex ih) = Some ps" "\<exists>x\<in>set ps. paddress x = address ri"
  shows "(\<exists>pre x post.
           ps = pre @ x # post \<and> (\<forall>y\<in>set pre. paddress y \<noteq> address ri) \<and>
           paddress x = address ri \<and>
           processAnnouncePeer now a msg ri s =
             (None, s\<lparr>peers := (peers s)(hex ih \<mapsto> pre @ x\<lparr>ptimeout := Some (now + 3600000)\<rparr> # post),
                      sent := sent s @ [Response ri (m_t msg) (self_id s) NoArgs]\<rparr>)) \<and>
         (\<forall>a' s'. emitted (snd (processAnnouncePeer now a' msg ri s')) \<noteq> emitted s' \<longrightarrow>
            (\<exists>ih' ps'. a_info_hash a' = Some (BStr ih') \<and> peers s' (hex ih') = Some ps' \<and>
               (\<forall>x\<in>set ps'. paddress x \<noteq> address ri)))"
proof -
  obtain p where p: "p = (case a_port a of Some (BInt n) \<Rightarrow> n | _ \<Rightarrow> port ri)" by simp
  from renew_existing_split[OF assms(5), of p now] obtain pre x post where
    *: "ps = pre @ x # post" "\<forall>y\<in>set pre. paddress y \<noteq> address ri" "paddress x = address ri"
       "renew_existing (address ri) p now ps = pre @ x\<lparr>ptimeout := Some (now + 3600000)\<rparr> # post"
    by blast
  have "processAnnouncePeer now a msg ri s =
             (None, s\<lparr>peers := (peers s)(hex ih \<mapsto> pre @ x\<lparr>ptimeout := Some (now + 3600000)\<rparr> # post),
                      sent := sent s @ [Response ri (m_t msg) (self_id s) NoArgs]\<rparr>)"
    using assms(1-4) assms(5)[folded list_ex_same_peer[of "address ri" p]] *(4)[unfolded p]
    by (simp add: processAnnouncePeer_def verifyToken_def Let_def respond_def p)
  with *(1-3) have "\<exists>pre x post.
           ps = pre @ x # post \<and> (\<forall>y\<in>set pre. paddress y \<noteq> address ri) \<and>
           paddress x = address ri \<and>
           processAnnouncePeer now a msg ri s =
             (None, s\<lparr>peers := (peers s)(hex ih \<mapsto> pre @ x\<lparr>ptimeout := Some (now + 3600000)\<rparr> # post),
                      sent := sent s @ [Response ri (m_t msg) (self_id s) NoArgs]\<rparr>)"
    by blast
  then show ?thesis
    using processAnnouncePeer_emits by blast
qed

theorem reannounce_renews_witness:
  "a_token (the (m_a announce1)) = Some (BStr [0, 0, 0, 0]) \<and>
   a_info_hash (the (m_a announce1)) = Some (BStr id3) \<and> length id3 = 20 \<and>
   peers store2 (hex id3) = Some [\<lparr>paddress = ''10.0.0.1'', pport = 7000, ptimeout = Some 100\<rparr>] \<and>
   address peerA = ''10.0.0.1'' \<and>
   processAnnouncePeer 5000 (the (m_a announce1)) announce1 peerA store2 =
     (None, store2\<lparr>peers := (peers store2)(hex id3 \<mapsto>
                [\<lparr>paddress = ''10.0.0.1'', pport = 7000, ptimeout = Some 3605000\<rparr>]),
              sent := [Response peerA (Some [97, 97]) id1 NoArgs]\<rparr>)"
proof -
  have h: "a_token (the (m_a announce1)) = Some (BStr [0, 0, 0, 0])"
    "a_info_hash (the (m_a announce1)) = Some (BStr id3)" "length id3 = 20"
    "peers store2 (hex id3) = Some [\<lparr>paddress = ''10.0.0.1'', pport = 7000, ptimeout = Some 100\<rparr>]"
    "\<exists>x\<in>set [\<lparr>paddress = ''10.0.0.1'', pport = 7000, ptimeout = Some 100\<rparr>]. paddress x = address peerA"
    by (simp_all add: announce1_def id3_def store2_def peerA_def)
  have m: "m_t announce1 = Some [97, 97]" "self_id store2 = id1" "sent store2 = []"
    "address peerA = ''10.0.0.1''"
    by (simp_all add: announce1_def store2_def create_def peerA_def)
  from reannounce_renews[OF h, of 5000 announce1]
  have "processAnnouncePeer 5000 (the (m_a announce1)) announce1 peerA store2 =
     (None, store2\<lparr>peers := (peers store2)(hex id3 \<mapsto>
                [\<lparr>paddress = ''10.0.0.1'', pport = 7000, ptimeout = Some 3605000\<rparr>]),
              sent := [Response peerA (Some [97, 97]) id1 NoArgs]\<rparr>)"
    by (auto simp: m Cons_eq_append_conv)
  with h m show ?thesis by simp
qed

section \<open>Replies to rejected queries\<close>

lemma catch_sent: "sent (catch r) = sent (snd r)"
  by (cases r) (auto simp: catch_def split: option.splits)

lemma observe_sent: "sent (snd (observe ts now ident ri s)) = sent s"
  using observe_fields(9)[OF surjective_pairing] .

lemma processRequest_unknown_sent:
  assumes "type \<notin> {''ping'', ''find_node'', ''get_peers'', ''announce_peer''}"
  shows "sent (snd (processRequest h now junk type msg ri s)) = sent s"
  using assms
  by (auto simp: processRequest_def split: option.splits bval.splits prod.splits
      dest: observe_fields(9))

lemma processAnnouncePeer_no_token:
  assumes "\<And>tok. a_token a = Some (BStr tok) \<Longrightarrow> \<not> verifyToken (BStr tok)"
  shows "processAnnouncePeer now a msg ri s = (None, s)"
  using assms by (auto simp: processAnnouncePeer_def split: option.splits bval.splits)

lemma processRequest_no_token_sent:
  assumes "\<And>tok. a_token a = Some (BStr tok) \<Longrightarrow> \<not> verifyToken (BStr tok)" "m_a msg = Some a"
  shows "sent (snd (processRequest h now junk ''announce_peer'' msg ri s)) = sent s"
  using assms(2)
  by (auto simp: processRequest_def processAnnouncePeer_no_token[OF assms(1)]
      split: option.splits bval.splits prod.splits dest: observe_fields(9))

lemma onmessage_query:
  "m_y msg \<noteq> Some [0x72] \<Longrightarrow> m_q msg = Some q \<Longrightarrow>
   onmessage h now junk msg ri s = catch (processRequest h now junk (toStr h q) msg ri s)"
  by (simp add: onmessage_def)

lemma unknown1_facts:
  "m_y unknown1 \<noteq> Some [0x72]" "m_q unknown1 = Some (bytes ''foo'')"
  "toStr host0 (bytes ''foo'') \<notin> {''ping'', ''find_node'', ''get_peers'', ''announce_peer''}"
  by (simp_all add: unknown1_def host0_def ascii_bytes)

lemma announce_int_token_facts:
  "m_y announce_int_token \<noteq> Some [0x72]" "m_q announce_int_token = Some (bytes ''announce_peer'')"
  "toStr host0 (bytes ''announce_peer'') = ''announce_peer''"
  "m_a announce_int_token = Some (the (m_a announce_int_token))"
  "\<forall>tok. a_token (the (m_a announce_int_token)) = Some (BStr tok) \<longrightarrow> \<not> verifyToken (BStr tok)"
  by (simp_all add: announce_int_token_def host0_def ascii_bytes)

text \<open>
  C8 (as amended). A query that the responder rejects gets no reply at all. If the
  method name is none of \<^verbatim>\<open>ping\<close>, \<^verbatim>\<open>find_node\<close>, \<^verbatim>\<open>get_peers\<close>, \<^verbatim>\<open>announce_peer\<close>, nothing is
  sent (the branch is \<^verbatim>\<open>// Ignore\<close>); if the token of an \<^verbatim>\<open>announce_peer\<close> does not pass
  the guard of \<^verbatim>\<open>processAnnouncePeer\<close> (there is no token, or it is not a byte string, or
  \<^verbatim>\<open>verifyToken\<close> refuses it), nothing is sent (the guard returns). The only datagrams the
  node builds are queries and responses.
\<close>

theorem rejected_query_gets_no_reply:
  "(m_y msg \<noteq> Some [0x72] \<and> m_q msg = Some q \<and>
    toStr h q \<notin> {''ping'', ''find_node'', ''get_peers'', ''announce_peer''}
      \<longrightarrow> sent (onmessage h now junk msg ri s) = sent s) \<and>
   (m_y msg \<noteq> Some [0x72] \<and> m_q msg = Some q \<and> toStr h q = ''announce_peer'' \<and>
    m_a msg = Some a \<and> (\<forall>tok. a_token a = Some (BStr tok) \<longrightarrow> \<not> verifyToken (BStr tok))
      \<longrightarrow> sent (onmessage h now junk msg ri s) = sent s)"
  using processRequest_unknown_sent[of "toStr h q" h now junk msg ri s]
    processRequest_no_token_sent[of a msg h now junk ri s]
  by (auto simp: onmessage_query catch_sent)

theorem rejected_query_gets_no_reply_witness:
  "sent (onmessage host0 5 [] unknown1 peerA (create id1 6881)) = sent (create id1 6881) \<and>
   sent (onmessage host0 5 [] announce_int_token peerA (create id1 6881)) = sent (create id1 6881)"
  using rejected_query_gets_no_reply[of unknown1 "bytes ''foo''" host0 5 "[]" peerA
          "create id1 6881" "the (m_a unknown1)"]
        rejected_query_gets_no_reply[of announce_int_token "bytes ''announce_peer''" host0 5 "[]"
          peerA "create id1 6881" "the (m_a announce_int_token)"]
        unknown1_facts announce_int_token_facts
  by simp

text \<open>
  C8 as stated fails: the query \<open>unknown1\<close>, well formed and with the method name
  \<^verbatim>\<open>foo\<close>, is answered with nothing, not with the error \<^verbatim>\<open>{204, "Method Unknown"}\<close>.
\<close>

theorem unknown_method_unanswered:
  "sent (onmessage host0 5 [] unknown1 peerA (create id1 6881)) = []"
  using processRequest_unknown_sent[OF unknown1_facts(3), of host0 5 "[]" unknown1 peerA "create id1 6881"]
  by (simp add: onmessage_query[OF unknown1_facts(1,2)] catch_sent create_def)

section \<open>Tokens\<close>

text \<open>
  C6 (the code departs from the claim). \<^verbatim>\<open>verifyToken\<close> accepts every token, and neither
  \<^verbatim>\<open>issueToken\<close> nor \<^verbatim>\<open>verifyToken\<close> looks at an address. So the token issued to one
  address (whatever four bytes the fresh Buffer holds) is accepted when \<open>peerB\<close>, any
  other address, presents it: on the store \<open>store1\<close> the announce is carried out, the
  record for \<open>peerB\<close> is added and \<^verbatim>\<open>peer:new\<close> is emitted.
\<close>

theorem token_accepted_from_any_address:
  "verifyToken tok \<and>
   processAnnouncePeer now (announce_with (issueToken junk)) msg peerB store1 =
     (None, store1\<lparr>peers := [hex id3 \<mapsto> [\<lparr>paddress = ''10.0.0.2'', pport = 7000,
                                            ptimeout = Some (now + 3600000)\<rparr>]],
              sent := [Response peerB (m_t msg) id1 NoArgs],
              emitted := [PeerNew (hex id3) \<lparr>paddress = ''10.0.0.2'', pport = 7000,
                                            ptimeout = Some (now + 3600000)\<rparr>]\<rparr>)"
  by (simp add: verifyToken_def processAnnouncePeer_def announce_with_def store1_def
      create_def id3_def Let_def respond_def peerB_def renew_def peer_timeout_def)

section \<open>Outbound announces\<close>

lemma id_unbound: "''id'' \<notin> set (send_scope @ sendAnnouncePeer_scope @ module_scope)"
  by (simp add: send_scope_def sendAnnouncePeer_scope_def module_scope_def)

lemma send_throws:
  "global h ''id'' = None \<Longrightarrow> send h target token cb s = (Some ReferenceError, s)"
  by (simp add: send_def read_var_def id_unbound[simplified])

lemma run_deferred_throws:
  "global h ''id'' = None \<Longrightarrow>
   run_deferred h ds s = (if ds = [] then (None, s) else (Some ReferenceError, s\<lparr>deferred := tl ds\<rparr>))"
  by (cases ds) (auto simp: send_throws)

text \<open>
  C10. The identifier \<^verbatim>\<open>id\<close> is bound in none of the scopes that enclose the body of
  \<^verbatim>\<open>send\<close>. On a host whose global object has no property \<^verbatim>\<open>id\<close>, \<^verbatim>\<open>sendAnnouncePeer\<close>
  therefore sends no datagram, whatever its arguments: when the port is known \<^verbatim>\<open>send\<close>
  runs at once and throws a ReferenceError before \<^verbatim>\<open>request\<close> is called; when the port is
  still 0 the call is deferred, and the deferred \<^verbatim>\<open>send\<close> throws the same way when the
  socket is bound.
\<close>

theorem sendAnnouncePeer_never_sends:
  assumes "global h ''id'' = None"
  shows "''id'' \<notin> set (send_scope @ sendAnnouncePeer_scope @ module_scope) \<and>
         sent (snd (sendAnnouncePeer h target token p cb s)) = sent s \<and>
         (nport s \<noteq> 0 \<longrightarrow> sendAnnouncePeer h target token p cb s = (Some ReferenceError, s)) \<and>
         (nport s = 0 \<longrightarrow>
            sendAnnouncePeer h target token p cb s
              = (None, s\<lparr>deferred := deferred s @ [(target, token, cb)]\<rparr>) \<and>
            fst (listening h p' (snd (sendAnnouncePeer h target token p cb s)))
              = Some ReferenceError \<and>
            sent (snd (listening h p' (snd (sendAnnouncePeer h target token p cb s)))) = sent s)"
  using assms
  by (simp add: id_unbound[simplified] sendAnnouncePeer_def send_throws listening_def
      run_deferred_throws)

theorem sendAnnouncePeer_never_sends_witness:
  "global host0 ''id'' = None \<and>
   sendAnnouncePeer host0 peerA (BStr [0, 0, 0, 0]) \<lparr>paddress = ''10.0.0.9'', pport = 1, ptimeout = None\<rparr>
       (Cont []) (create id1 6881) = (Some ReferenceError, create id1 6881) \<and>
   sent (snd (sendAnnouncePeer host0 peerA (BStr [0, 0, 0, 0])
       \<lparr>paddress = ''10.0.0.9'', pport = 1, ptimeout = None\<rparr> (Cont []) (create id1 0))) = [] \<and>
   fst (listening host0 6881 (snd (sendAnnouncePeer host0 peerA (BStr [0, 0, 0, 0])
       \<lparr>paddress = ''10.0.0.9'', pport = 1, ptimeout = None\<rparr> (Cont []) (create id1 0))))
     = Some ReferenceError \<and>
   sent (snd (listening host0 6881 (snd (sendAnnouncePeer host0 peerA (BStr [0, 0, 0, 0])
       \<lparr>paddress = ''10.0.0.9'', pport = 1, ptimeout = None\<rparr> (Cont []) (create id1 0))))) = []"
proof -
  have g: "global host0 ''id'' = None" by (simp add: host0_def)
  have p: "nport (create id1 6881) \<noteq> 0" "nport (create id1 0) = 0"
    "sent (create id1 0) = []"
    by (simp_all add: create_def)
  let ?pr = "\<lparr>paddress = ''10.0.0.9'', pport = 1, ptimeout = None\<rparr>"
  from sendAnnouncePeer_never_sends[OF g, of peerA "BStr [0, 0, 0, 0]" ?pr "Cont []"
        "create id1 6881" 6881] p(1)
  have a: "sendAnnouncePeer host0 peerA (BStr [0, 0, 0, 0]) ?pr (Cont []) (create id1 6881)
      = (Some ReferenceError, create id1 6881)"
    by blast
  from sendAnnouncePeer_never_sends[OF g, of peerA "BStr [0, 0, 0, 0]" ?pr "Cont []"
        "create id1 0" 6881] p(2)
  have b: "sent (snd (sendAnnouncePeer host0 peerA (BStr [0, 0, 0, 0]) ?pr (Cont [])
                (create id1 0))) = sent (create id1 0)"
    and c: "fst (listening host0 6881 (snd (sendAnnouncePeer host0 peerA (BStr [0, 0, 0, 0])
                ?pr (Cont []) (create id1 0)))) = Some ReferenceError"
    and d: "sent (snd (listening host0 6881 (snd (sendAnnouncePeer host0 peerA
                (BStr [0, 0, 0, 0]) ?pr (Cont []) (create id1 0))))) = sent (create id1 0)"
    by blast+
  show ?thesis
    unfolding b c d p(3) using g a by blast
qed

section \<open>The routing table\<close>

lemma compare_from_le:
  assumes "x = Buf a" "y = Buf b" "length a = length b" "even (length a)" "even i"
    "\<forall>j<length a. a ! j \<le> b ! j"
  shows "\<exists>c\<le>0. compare_from x y i = Inr c"
  using assms
proof (induction x y i rule: compare_from.induct)
  case (1 x y i)
  show ?case
  proof (cases "i < length a")
    case False
    then show ?thesis using 1(2,3) by (subst compare_from.simps) simp
  next
    case True
    then have i1: "i + 1 < length a" using 1(5,6) by presburger
    have le: "256 * int (a ! i) + int (a ! (i + 1)) \<le> 256 * int (b ! i) + int (b ! (i + 1))"
      using 1(7) True i1 by (simp add: add_mono)
    show ?thesis
    proof (cases "256 * int (a ! i) + int (a ! (i + 1)) = 256 * int (b ! i) + int (b ! (i + 1))")
      case eq: True
      have "\<exists>c\<le>0. compare_from x y (i + 2) = Inr c"
        using 1(1)[of "256 * int (a ! i) + int (a ! (i + 1))" "256 * int (b ! i) + int (b ! (i + 1))"]
          1(2-7) True i1 eq
        by simp
      then show ?thesis using 1(2-4) True i1 eq by (subst compare_from.simps) simp
    next
      case False
      then show ?thesis using 1(2-4) True i1 le by (subst compare_from.simps) simp
    qed
  qed
qed

lemma contains_full:
  assumes "valid_id ident" "full_range b"
  shows "contains b (Buf ident) = Inr True"
proof -
  have l: "length ident = 20" and r: "\<forall>j<20. ident ! j < 256"
    using assms(1) by (auto simp: valid_id_def list_all_length)
  have s: "bstart b = replicate 20 0" and e: "bend b = replicate 20 255"
    using assms(2) by (simp_all add: full_range_def Bucket0_def eval_nat_numeral)
  have "\<exists>c\<le>0. compare_from (Buf (bstart b)) (Buf ident) 0 = Inr c"
    by (rule compare_from_le[OF refl refl]) (simp_all add: s l)
  moreover have "\<exists>c\<le>0. compare_from (Buf ident) (Buf (bend b)) 0 = Inr c"
    by (rule compare_from_le[OF refl refl]) (use r in \<open>auto simp: e l less_Suc_eq_le\<close>)
  ultimately show ?thesis
    by (auto simp: contains_def range_contains_def compare_def)
qed

lemma contains_Str:
  assumes "length (bstart b) \<ge> 2"
  shows "contains b (Str k) = Inl TypeError"
  using assms
  by (auto simp: contains_def range_contains_def compare_def compare_from.simps[of _ _ 0])

lemma split_nonempty_throws:
  assumes "nodes b \<noteq> []" "length (bstart b) \<ge> 2"
  shows "\<exists>e. split ts k b = Inl e"
proof (cases "split_bounds (bstart b) (bend b)")
  case (Inl e)
  then show ?thesis by (simp add: split_def)
next
  case (Inr x)
  obtain rpos lpos where x: "x = (rpos, lpos)" by (cases x)
  obtain kr rest where n: "nodes b = kr # rest" using assms(1) by (cases "nodes b") auto
  obtain k' r where kr: "kr = (k', r)" by (cases kr)
  have "contains (Bucket k (bstart b) lpos) (Str k') = Inl TypeError"
    by (rule contains_Str) (simp add: Bucket_def assms(2))
  then show ?thesis using Inr x n kr by (simp add: split_def)
qed

lemma split_bounds_full:
  "split_bounds (bstart (Bucket0 0)) (bend (Bucket0 0))
   = Inr ([128, 0, 0, 0, 0, 0, 0, 0, 0, 0, 0, 0, 0, 0, 0, 0, 0, 0, 0, 0],
          [127, 255, 255, 255, 255, 255, 255, 255, 255, 255, 255, 255, 255, 255, 255, 255, 255,
           255, 255, 255])"
  by code_simp

lemma split_full_throws:
  assumes "nodes b \<noteq> []" "full_range b"
  shows "split ts k b = Inl TypeError"
proof -
  obtain kr rest where n: "nodes b = kr # rest" using assms(1) by (cases "nodes b") auto
  obtain k' r where kr: "kr = (k', r)" by (cases kr)
  have l: "length (bstart b) \<ge> 2" using assms(2) by (simp add: full_range_def Bucket0_def)
  have "contains (Bucket k (bstart b) lpos) (Str k') = Inl TypeError" for lpos
    by (rule contains_Str) (simp add: Bucket_def l)
  then show ?thesis
    using n kr assms(2) split_bounds_full by (simp add: split_def full_range_def)
qed

lemma set_update_subset: "set (AList.update k v al) \<subseteq> insert (k, v) (set al)"
  by (induction al) auto

lemma update_nonempty: "AList.update k v al \<noteq> []"
  by (cases al) auto

lemma set_delete_subset: "set (AList.delete k al) \<subseteq> set al"
  by (induction al) auto

lemma remove_props:
  "bstart (remove k b) = bstart b" "bend (remove k b) = bend b"
  "set (nodes (remove k b)) \<subseteq> set (nodes b)"
  "distinct (map fst (nodes b)) \<Longrightarrow> distinct (map fst (nodes (remove k b)))"
  using set_delete_subset[of k "nodes b"]
  by (auto simp: remove_def distinct_delete)

lemma add_fail: "\<not> fst (add ts r b) \<Longrightarrow> snd (add ts r b) = b \<and> slots b = 0 \<and> bad_keys b = []"
  by (auto simp: add_def Let_def split: if_splits)

lemma add_props:
  "bstart (snd (add ts r b)) = bstart b" "bend (snd (add ts r b)) = bend b"
  "fst (add ts r b) \<Longrightarrow> nodes (snd (add ts r b)) \<noteq> []"
  "set (nodes (snd (add ts r b))) \<subseteq> insert (ts (rid r), r) (set (nodes b))"
  "distinct (map fst (nodes b)) \<Longrightarrow> distinct (map fst (nodes (snd (add ts r b))))"
proof -
  let ?b1 = "if slots b = 0 then remove (hd (bad_keys b)) b else b"
  have a: "add ts r b = (if slots b = 0 \<and> bad_keys b = [] then (False, b)
      else (True, ?b1\<lparr>nodes := AList.update (ts (rid r)) r (nodes ?b1), slots := slots ?b1 - 1\<rparr>))"
    by (simp add: add_def Let_def)
  show "bstart (snd (add ts r b)) = bstart b" "bend (snd (add ts r b)) = bend b"
    by (simp_all add: a remove_props)
  show "fst (add ts r b) \<Longrightarrow> nodes (snd (add ts r b)) \<noteq> []"
    by (auto simp: a update_nonempty split: if_splits)
  have "set (nodes ?b1) \<subseteq> set (nodes b)"
    using remove_props(3)[of "hd (bad_keys b)" b] by simp
  then show "set (nodes (snd (add ts r b))) \<subseteq> insert (ts (rid r), r) (set (nodes b))"
    using set_update_subset[of "ts (rid r)" r "nodes ?b1"] by (auto simp: a)
  show "distinct (map fst (nodes b)) \<Longrightarrow> distinct (map fst (nodes (snd (add ts r b))))"
    by (simp add: a remove_props distinct_update)
qed

lemma locate_single:
  "locate [One b] ident =
     (case contains b ident of Inl e \<Rightarrow> Inl e | Inr c \<Rightarrow> Inr (if c then Some (0, b) else None))"
  by (simp split: sum.splits)

lemma observe_single:
  assumes "buckets s = [One b]" "nodes b \<noteq> [] \<or> slots b \<noteq> 0" "full_range b"
  shows "snd (observe ts now ident ri s) = s \<or>
         (fst (add ts (RemoteNode now ident ri) b) \<and> fst (observe ts now ident ri s) = None \<and>
          snd (observe ts now ident ri s)
            = s\<lparr>buckets := [One (snd (add ts (RemoteNode now ident ri) b))]\<rparr>)"
proof (cases "contains b (Buf ident)")
  case (Inl e)
  then show ?thesis using assms(1) by (subst observe.simps) (simp add: locate_single)
next
  case (Inr c)
  show ?thesis
  proof (cases c)
    case False
    then show ?thesis using assms(1) Inr by (subst observe.simps) (simp add: locate_single)
  next
    case True
    obtain ok b' where a: "add ts (RemoteNode now ident ri) b = (ok, b')"
      by (cases "add ts (RemoteNode now ident ri) b")
    show ?thesis
    proof (cases ok)
      case True
      then show ?thesis using assms(1) Inr \<open>c\<close> a
        by (subst (1 2) observe.simps) (simp add: locate_single)
    next
      case False
      with a add_fail[of ts "RemoteNode now ident ri" b] have "slots b = 0" by simp
      with assms(2) have "nodes b \<noteq> []" by simp
      from split_full_throws[OF this assms(3)] have sp: "split ts (K s) b = Inl TypeError" .
      show ?thesis using assms(1) Inr \<open>c\<close> a False sp
        by (subst observe.simps) (simp add: locate_single split: sum.splits bool.splits)
    qed
  qed
qed

lemma table_ok_buckets: "buckets s' = buckets s \<Longrightarrow> table_ok ts s' = table_ok ts s"
  by (simp add: table_ok_def)

lemma observe_table_ok:
  assumes "table_ok ts s"
  shows "table_ok ts (snd (observe ts now ident ri s))"
proof -
  from assms obtain b where b: "buckets s = [One b]" "full_range b" "slots b = 0 \<longrightarrow> nodes b \<noteq> []"
    "distinct (map fst (nodes b))" "\<forall>(k, r) \<in> set (nodes b). k = ts (rid r)"
    unfolding table_ok_def by blast
  let ?r = "RemoteNode now ident ri"
  let ?b' = "snd (add ts ?r b)"
  from observe_single[OF b(1) _ b(2), of ts now ident ri] b(3)
  consider "snd (observe ts now ident ri s) = s"
    | "fst (add ts ?r b)" "snd (observe ts now ident ri s) = s\<lparr>buckets := [One ?b']\<rparr>"
    by blast
  then show ?thesis
  proof cases
    case 1
    then show ?thesis using assms by simp
  next
    case 2
    have "full_range ?b'" using b(2) by (simp add: full_range_def add_props)
    moreover have "nodes ?b' \<noteq> []" using 2(1) by (rule add_props)
    moreover have "distinct (map fst (nodes ?b'))" using b(4) by (rule add_props)
    moreover have "\<forall>(k, r) \<in> set (nodes ?b'). k = ts (rid r)"
      using add_props(4)[of ts ?r b] b(5) by auto
    ultimately show ?thesis unfolding table_ok_def 2(2) by simp
  qed
qed

lemma request_buckets: "buckets (request h t ty a cb s) = buckets s"
  by (simp add: request_def Let_def)

lemma requests_buckets:
  "buckets (foldl (\<lambda>s' (target, type, a, cb). request h target type a cb s') s rs) = buckets s"
  by (induction rs arbitrary: s) (auto simp: request_buckets)

lemma invoke_buckets: "invoke h q err cb s = (r, s1) \<Longrightarrow> buckets s1 = buckets s"
  by (auto simp: invoke_def requests_buckets)

lemma resolve_buckets: "buckets (snd (resolve h msg s)) = buckets s"
  by (auto simp: resolve_def split: option.splits prod.splits dest!: invoke_buckets)

lemma fire_buckets: "buckets (snd (fire h q s)) = buckets s"
  by (auto simp: fire_def split: option.splits prod.splits dest!: invoke_buckets)

lemma catch_buckets: "buckets (catch r) = buckets (snd r)"
  by (cases r) (auto simp: catch_def split: option.splits)

lemma send_buckets: "buckets (snd (send h t tok cb s)) = buckets s"
  by (auto simp: send_def request_buckets split: sum.splits)

lemma run_deferred_buckets: "buckets (snd (run_deferred h ds s)) = buckets s"
proof (induction ds arbitrary: s)
  case Nil
  then show ?case by simp
next
  case (Cons d ds)
  obtain t tok cb where d: "d = (t, tok, cb)" by (cases d)
  have "buckets (snd (send h t tok cb (s\<lparr>deferred := ds\<rparr>))) = buckets s"
    by (simp add: send_buckets)
  then show ?case
    using Cons.IH[of "snd (send h t tok cb (s\<lparr>deferred := ds\<rparr>))"] d
    by (auto split: prod.splits option.splits)
qed

lemma table_ok_same: "table_ok ts s \<Longrightarrow> buckets s' = buckets s \<Longrightarrow> table_ok ts s'"
  by (simp add: table_ok_def)

lemma processRequest_table_ok:
  assumes "table_ok (toStr h) s"
  shows "table_ok (toStr h) (snd (processRequest h now junk type msg ri s))"
proof -
  from processRequest_buckets[of h now junk type msg ri s]
  consider "buckets (snd (processRequest h now junk type msg ri s)) = buckets s"
    | ident where "buckets (snd (processRequest h now junk type msg ri s))
        = buckets (snd (observe (toStr h) now ident ri s))"
    by blast
  then show ?thesis
  proof cases
    case 1
    with assms show ?thesis by (rule table_ok_same)
  next
    case 2
    with observe_table_ok[OF assms] show ?thesis by (rule table_ok_same)
  qed
qed

lemma onmessage_table_ok:
  assumes "table_ok (toStr h) s"
  shows "table_ok (toStr h) (onmessage h now junk msg ri s)"
proof -
  let ?r = "if m_y msg = Some [0x72] then resolve h msg s
        else (case m_q msg of None \<Rightarrow> (Some TypeError, s)
              | Some q \<Rightarrow> processRequest h now junk (toStr h q) msg ri s)"
  have "table_ok (toStr h) (snd ?r)"
  proof (cases "m_y msg = Some [0x72]")
    case True
    then show ?thesis using table_ok_same[OF assms resolve_buckets] by simp
  next
    case False
    then show ?thesis using assms processRequest_table_ok[OF assms]
      by (cases "m_q msg") simp_all
  qed
  then have "table_ok (toStr h) (catch ?r)"
    by (rule table_ok_same) (rule catch_buckets)
  then show ?thesis by (simp add: onmessage_def)
qed

lemma on_contact_table_ok:
  assumes "table_ok ts s" "\<And>r. rid (f r) = rid r"
  shows "table_ok ts (on_contact f i k s)"
proof -
  from assms(1) obtain b where b: "buckets s = [One b]" "full_range b" "slots b = 0 \<longrightarrow> nodes b \<noteq> []"
    "distinct (map fst (nodes b))" "\<forall>(k, r) \<in> set (nodes b). k = ts (rid r)"
    unfolding table_ok_def by blast
  let ?g = "\<lambda>(k', r). if k' = k then (k', f r) else (k', r)"
  have m: "fst \<circ> ?g = fst"
    by (auto simp: fun_eq_iff)
  show ?thesis
  proof (cases "i = 0")
    case False
    then show ?thesis using assms(1) b(1) by (simp add: on_contact_def)
  next
    case True
    let ?b' = "b\<lparr>nodes := map ?g (nodes b)\<rparr>"
    have "on_contact f i k s = s\<lparr>buckets := [One ?b']\<rparr>"
      using True b(1) by (simp add: on_contact_def)
    moreover have "full_range ?b'" using b(2) by (simp add: full_range_def)
    moreover have "slots ?b' = 0 \<longrightarrow> nodes ?b' \<noteq> []" using b(3) by simp
    moreover have "distinct (map fst (nodes ?b'))" using b(4) m by simp
    moreover have "\<forall>(k, r) \<in> set (nodes ?b'). k = ts (rid r)"
      using b(5) assms(2) by (auto split: if_splits)
    ultimately show ?thesis unfolding table_ok_def by simp
  qed
qed

lemma step_table_ok:
  assumes "table_ok (toStr h) s"
  shows "table_ok (toStr h) (step h s inp)"
proof (cases inp)
  case (Message now junk msg ri)
  then show ?thesis using onmessage_table_ok[OF assms] by simp
next
  case (Timeout q)
  then show ?thesis using table_ok_same[OF assms fire_buckets] by simp
next
  case (Ping t cb)
  then show ?thesis using table_ok_same[OF assms request_buckets] by (simp add: sendPing_def)
next
  case (FindNode t i cb)
  then show ?thesis using table_ok_same[OF assms request_buckets] by (simp add: sendFindNode_def)
next
  case (GetPeers t i cb)
  then show ?thesis using table_ok_same[OF assms request_buckets] by (simp add: sendGetPeers_def)
next
  case (AnnouncePeer t tok p cb)
  have "buckets (snd (sendAnnouncePeer h t tok p cb s)) = buckets s"
    by (simp add: sendAnnouncePeer_def send_buckets)
  with assms show ?thesis using AnnouncePeer by (simp add: table_ok_same)
next
  case (Bound p)
  have "buckets (snd (listening h p s)) = buckets s"
    by (simp add: listening_def run_deferred_buckets)
  with assms show ?thesis using Bound by (simp add: table_ok_same)
next
  case (Thank now i k)
  then show ?thesis using on_contact_table_ok[OF assms, of "thank now"] by (simp add: thank_def)
next
  case (Curse i k)
  then show ?thesis using on_contact_table_ok[OF assms, of curse] by (simp add: curse_def Let_def)
qed

lemma run_table_ok: "table_ok (toStr h) s \<Longrightarrow> table_ok (toStr h) (run h inps s)"
  unfolding run_def by (induction inps arbitrary: s) (simp_all add: step_table_ok)

lemma create_table_ok: "table_ok ts (create ident p)"
  by (simp add: table_ok_def create_def full_range_def Bucket0_def)

text \<open>
  In every run of a node the routing table is the single bucket it started with, over
  the whole space: \<^verbatim>\<open>split\<close> is reached only on a bucket without a free slot, such a bucket
  holds a contact, and relocating a contact throws before the table is written. (So the
  ranges of the table are trivially disjoint and cover the space.)
\<close>

theorem table_never_splits:
  "\<exists>b. buckets (run h inps (create ident p)) = [One b] \<and> bstart b = bstart (Bucket0 8) \<and>
        bend b = bend (Bucket0 8)"
  using run_table_ok[OF create_table_ok, of h inps ident p]
  by (auto simp: table_ok_def full_range_def Bucket0_def)

lemma bad_keys_good:
  assumes "\<forall>(k, r) \<in> set (nodes b). good r"
  shows "bad_keys b = []"
proof -
  have "filter (\<lambda>(k, r). \<not> good r) (nodes b) = []"
    using assms by (auto simp: filter_empty_conv)
  then show ?thesis by (simp add: bad_keys_def)
qed

lemma filling_step:
  assumes "filling (Suc m) s" "valid_id ident"
  shows "fst (observe ts now ident ri s) = None \<and> filling m (snd (observe ts now ident ri s))"
proof -
  from assms(1) obtain b where b: "buckets s = [One b]" "full_range b" "slots b = int (Suc m)"
    "\<forall>(k, r) \<in> set (nodes b). good r"
    unfolding filling_def by blast
  let ?r = "RemoteNode now ident ri"
  have a: "add ts ?r b = (True, b\<lparr>nodes := AList.update (ts ident) ?r (nodes b), slots := int m\<rparr>)"
    using b(3) by (simp add: add_def RemoteNode_def)
  have o: "observe ts now ident ri s
      = (None, s\<lparr>buckets := [One (b\<lparr>nodes := AList.update (ts ident) ?r (nodes b), slots := int m\<rparr>)]\<rparr>)"
    using b(1) contains_full[OF assms(2) b(2)] a
    by (subst observe.simps) (simp add: locate_single)
  have "\<forall>(k, r) \<in> set (AList.update (ts ident) ?r (nodes b)). good r"
    using set_update_subset[of "ts ident" ?r "nodes b"] b(4)
    by (auto simp: RemoteNode_def)
  then show ?thesis
    using b(2) by (simp add: o filling_def full_range_def update_nonempty)
qed

lemma filling_observes:
  assumes "filling (m + length obs) s" "\<forall>(now, ident, ri) \<in> set obs. valid_id ident"
  shows "filling m (observes ts obs s)"
  using assms
proof (induction obs arbitrary: s)
  case Nil
  then show ?case by (simp add: observes_def)
next
  case (Cons x obs)
  obtain now ident ri where x: "x = (now, ident, ri)" by (cases x)
  have "filling (m + length obs) (snd (observe ts now ident ri s))"
    using filling_step[of "m + length obs" s ident ts now ri] Cons.prems x by simp
  from Cons.IH[OF this] Cons.prems(2) show ?case
    by (simp add: observes_def x)
qed

lemma filling_full_throws:
  assumes "filling 0 s" "valid_id ident" "valid_id (self_id s)"
  shows "observe ts now ident ri s = (Some TypeError, s)"
proof -
  from assms(1) obtain b where b: "buckets s = [One b]" "full_range b" "slots b = 0"
    "nodes b \<noteq> []" "\<forall>(k, r) \<in> set (nodes b). good r"
    unfolding filling_def by auto
  have a: "add ts (RemoteNode now ident ri) b = (False, b)"
    using b(3) bad_keys_good[OF b(5)] by (simp add: add_def)
  show ?thesis
    using b(1) contains_full[OF assms(2) b(2)] contains_full[OF assms(3) b(2)] a
      split_full_throws[OF b(4) b(2)]
    by (subst observe.simps) (simp add: locate_single)
qed

lemma create_filling: "filling 8 (create ident p)"
  by (simp add: filling_def create_def full_range_def Bucket0_def)

lemma observes_self_id: "self_id (observes ts obs s) = self_id s"
  unfolding observes_def
  by (induction obs arbitrary: s)
     (auto simp: observe_fields(1)[OF surjective_pairing] split: prod.splits)

lemma valid_idn: "n < 256 \<Longrightarrow> valid_id (idn n)"
  by (simp add: valid_id_def idn_def list_all_iff)

lemma valid_id1: "valid_id id1"
  by (simp add: valid_id_def id1_def)

text \<open>
  C1 (the code departs from the claim). On a new node whose id is well formed, feed
  eight observations of well-formed ids to the routing loop, then a ninth. After the
  eight, the table is the one bucket over the whole space, with no free slot. The ninth
  finds the bucket full of good contacts, the bucket is the home bucket, and \<^verbatim>\<open>split\<close> is
  called: it throws a TypeError (\<^verbatim>\<open>head.contains(id)\<close> is given a key of \<^verbatim>\<open>this.nodes\<close>, a
  string, and \<^verbatim>\<open>Bucket.compare\<close> calls \<^verbatim>\<open>readUInt16BE\<close> on it). The table is left as it was:
  the bucket is not replaced by its two halves, and the ninth contact is not stored.
\<close>

theorem ninth_observe_throws:
  assumes "length obs = 8" "\<forall>(now, ident, ri) \<in> set obs. valid_id ident" "valid_id ident"
    "valid_id self"
  shows "(\<exists>b. buckets (observes ts obs (create self p)) = [One b] \<and> slots b = 0 \<and>
              bstart b = bstart (Bucket0 8) \<and> bend b = bend (Bucket0 8)) \<and>
         observe ts now ident ri (observes ts obs (create self p))
           = (Some TypeError, observes ts obs (create self p))"
proof -
  have f: "filling 0 (observes ts obs (create self p))"
    using filling_observes[of 0 obs "create self p" ts] create_filling assms(1,2) by simp
  have "self_id (observes ts obs (create self p)) = self"
    by (simp add: observes_self_id create_def)
  with filling_full_throws[OF f assms(3), of ts now ri] assms(4)
  have "observe ts now ident ri (observes ts obs (create self p))
           = (Some TypeError, observes ts obs (create self p))"
    by simp
  moreover from f have "\<exists>b. buckets (observes ts obs (create self p)) = [One b] \<and> slots b = 0 \<and>
              bstart b = bstart (Bucket0 8) \<and> bend b = bend (Bucket0 8)"
    by (auto simp: filling_def full_range_def Bucket0_def)
  ultimately show ?thesis by blast
qed

theorem ninth_observe_throws_witness:
  "length eight_obs = 8 \<and> valid_id id1 \<and>
   (\<exists>b. buckets (observes ascii eight_obs (create id1 6881)) = [One b] \<and> slots b = 0 \<and>
              bstart b = bstart (Bucket0 8) \<and> bend b = bend (Bucket0 8)) \<and>
   observe ascii 9 id1 peerA (observes ascii eight_obs (create id1 6881))
     = (Some TypeError, observes ascii eight_obs (create id1 6881))"
proof -
  have l: "length eight_obs = 8" by (simp add: eight_obs_def)
  have v: "\<forall>(now, ident, ri) \<in> set eight_obs. valid_id ident"
    by (simp add: eight_obs_def valid_idn)
  from ninth_observe_throws[OF l v valid_id1 valid_id1, of ascii 6881 9 peerA] l valid_id1
  show ?thesis by blast
qed

lemma Bucket0_fields: "slots (Bucket0 k) = int k" "nodes (Bucket0 k) = []"
  by (simp_all add: Bucket0_def)

lemma readd_same:
  assumes "k \<noteq> 0" "good r" "rid r' = rid r"
  shows "add ts r' (b\<lparr>nodes := [(ts (rid r), r)], slots := k\<rparr>)
         = (True, b\<lparr>nodes := [(ts (rid r), r')], slots := k - 1\<rparr>)"
  using assms by (simp add: add_def)

lemma readd_iterate:
  assumes "good r"
  shows "((\<lambda>b. snd (add ts r b)) ^^ n) (b\<lparr>nodes := [(ts (rid r), r)], slots := int (m + n)\<rparr>)
         = b\<lparr>nodes := [(ts (rid r), r)], slots := int m\<rparr>"
proof (induction n arbitrary: m)
  case 0
  then show ?case by simp
next
  case (Suc n)
  have "((\<lambda>b. snd (add ts r b)) ^^ n) (b\<lparr>nodes := [(ts (rid r), r)], slots := int (Suc m + n)\<rparr>)
        = b\<lparr>nodes := [(ts (rid r), r)], slots := int (Suc m)\<rparr>"
    by (rule Suc.IH)
  moreover have "snd (add ts r (b\<lparr>nodes := [(ts (rid r), r)], slots := int (Suc m)\<rparr>))
        = b\<lparr>nodes := [(ts (rid r), r)], slots := int m\<rparr>"
    using readd_same[of "int (Suc m)" r r ts b] assms by simp
  ultimately show ?case by simp
qed

lemma RemoteNode_fields: "good (RemoteNode now ident ri)" "rid (RemoteNode now ident ri) = ident"
  by (simp_all add: RemoteNode_def)

text \<open>
  C5 (the code departs from the claim). \<^verbatim>\<open>add\<close> never looks whether the id is already
  stored. In a new bucket of eight slots, storing the contact with id \<open>id2\<close> uses a slot;
  storing it again replaces the stored contact (the set of ids is unchanged) and uses
  another slot, 7 to 6; after eight insertions of this one contact the bucket holds one
  contact and has no free slot; and the next insertion of the same id is refused, as if
  the bucket were full.
\<close>

theorem reinsert_consumes_slot:
  "add ts (RemoteNode 1 id2 peerA) (Bucket0 8)
     = (True, (Bucket0 8)\<lparr>nodes := [(ts id2, RemoteNode 1 id2 peerA)], slots := 7\<rparr>) \<and>
   add ts (RemoteNode 2 id2 peerA)
       ((Bucket0 8)\<lparr>nodes := [(ts id2, RemoteNode 1 id2 peerA)], slots := 7\<rparr>)
     = (True, (Bucket0 8)\<lparr>nodes := [(ts id2, RemoteNode 2 id2 peerA)], slots := 6\<rparr>) \<and>
   ((\<lambda>b. snd (add ts (RemoteNode 1 id2 peerA) b)) ^^ 8) (Bucket0 8)
     = (Bucket0 8)\<lparr>nodes := [(ts id2, RemoteNode 1 id2 peerA)], slots := 0\<rparr> \<and>
   add ts (RemoteNode 2 id2 peerA)
       ((Bucket0 8)\<lparr>nodes := [(ts id2, RemoteNode 1 id2 peerA)], slots := 0\<rparr>)
     = (False, (Bucket0 8)\<lparr>nodes := [(ts id2, RemoteNode 1 id2 peerA)], slots := 0\<rparr>)"
proof -
  let ?r = "RemoteNode 1 id2 peerA"
  let ?f = "\<lambda>b. snd (add ts ?r b)"
  have a: "add ts ?r (Bucket0 8) = (True, (Bucket0 8)\<lparr>nodes := [(ts id2, ?r)], slots := 7\<rparr>)"
    by (simp add: add_def Bucket0_fields RemoteNode_fields)
  have b: "add ts (RemoteNode 2 id2 peerA) ((Bucket0 8)\<lparr>nodes := [(ts id2, ?r)], slots := 7\<rparr>)
      = (True, (Bucket0 8)\<lparr>nodes := [(ts id2, RemoteNode 2 id2 peerA)], slots := 6\<rparr>)"
    using readd_same[of 7 ?r "RemoteNode 2 id2 peerA" ts "Bucket0 8"]
    by (simp add: RemoteNode_fields)
  have "(?f ^^ 8) (Bucket0 8) = (?f ^^ 7) (?f (Bucket0 8))"
    using funpow_swap1[of ?f 7 "Bucket0 8"] by (simp add: numeral_eq_Suc)
  also have "\<dots> = (?f ^^ 7) ((Bucket0 8)\<lparr>nodes := [(ts (rid ?r), ?r)], slots := int (0 + 7)\<rparr>)"
    by (simp add: a RemoteNode_fields)
  also have "\<dots> = (Bucket0 8)\<lparr>nodes := [(ts (rid ?r), ?r)], slots := int 0\<rparr>"
    by (rule readd_iterate) (simp add: RemoteNode_fields)
  finally have c: "(?f ^^ 8) (Bucket0 8) = (Bucket0 8)\<lparr>nodes := [(ts id2, ?r)], slots := 0\<rparr>"
    by (simp add: RemoteNode_fields)
  have d: "add ts (RemoteNode 2 id2 peerA) ((Bucket0 8)\<lparr>nodes := [(ts id2, ?r)], slots := 0\<rparr>)
      = (False, (Bucket0 8)\<lparr>nodes := [(ts id2, ?r)], slots := 0\<rparr>)"
    by (simp add: add_def bad_keys_def RemoteNode_fields)
  from a b c d show ?thesis by blast
qed

section \<open>Closest contacts\<close>

lemma request_K: "K (request h t ty a cb s) = K s"
  by (simp add: request_def Let_def)

lemma requests_K:
  "K (foldl (\<lambda>s' (target, type, a, cb). request h target type a cb s') s rs) = K s"
  by (induction rs arbitrary: s) (auto simp: request_K)

lemma invoke_K: "invoke h q err cb s = (r, s1) \<Longrightarrow> K s1 = K s"
  by (auto simp: invoke_def requests_K)

lemma resolve_K: "K (snd (resolve h msg s)) = K s"
  by (auto simp: resolve_def split: option.splits prod.splits dest!: invoke_K)

lemma fire_K: "K (snd (fire h q s)) = K s"
  by (auto simp: fire_def split: option.splits prod.splits dest!: invoke_K)

lemma catch_K: "K (catch r) = K (snd r)"
  by (cases r) (auto simp: catch_def split: option.splits)

lemma send_K: "K (snd (send h t tok cb s)) = K s"
  by (auto simp: send_def request_K split: sum.splits)

lemma run_deferred_K: "K (snd (run_deferred h ds s)) = K s"
proof (induction ds arbitrary: s)
  case Nil
  then show ?case by simp
next
  case (Cons d ds)
  obtain t tok cb where d: "d = (t, tok, cb)" by (cases d)
  have "K (snd (send h t tok cb (s\<lparr>deferred := ds\<rparr>))) = K s"
    by (simp add: send_K)
  then show ?case
    using Cons.IH[of "snd (send h t tok cb (s\<lparr>deferred := ds\<rparr>))"] d
    by (auto split: prod.splits option.splits)
qed

lemma onmessage_K: "K (onmessage h now junk msg ri s) = K s"
  using processRequest_confined[of s h now junk _ msg ri]
  by (auto simp: onmessage_def catch_K resolve_K confined_def split: option.splits)

lemma step_K: "K (step h s inp) = K s"
  by (cases inp)
     (auto simp: onmessage_K fire_K sendPing_def sendFindNode_def sendGetPeers_def
        request_K sendAnnouncePeer_def send_K listening_def run_deferred_K
        on_contact_def split: slot.splits)

lemma run_K: "K (run h inps s) = K s"
  unfolding run_def by (induction inps arbitrary: s) (simp_all add: step_K)

lemma findKClosest_length: "findKClosest target s = Inr ns \<Longrightarrow> length ns \<le> K s"
  by (auto simp: findKClosest_def Let_def split: sum.splits option.splits if_splits)

lemma findKClosest_single:
  assumes "buckets s = [One b]" "findKClosest target s = Inr ns"
  shows "ns = take (K s) (getNodes b)"
  using assms
  by (auto simp: findKClosest_def locate_single Let_def split: sum.splits option.splits if_splits)

lemma keyed_distinct:
  assumes "distinct (map fst al)" "\<forall>(k, r) \<in> set al. k = ts (rid r)"
  shows "distinct (map rid (map snd al))"
proof -
  have "map fst al = map ts (map rid (map snd al))"
    using assms(2) by (induction al) auto
  with assms(1) have "distinct (map ts (map rid (map snd al)))" by simp
  then show ?thesis unfolding distinct_map[of ts] by blast
qed

lemma cursed_run_closest:
  "findKClosest id3 cursed_run
   = Inr [\<lparr>rid = id4, raddress = ''10.0.0.1'', rport = 6881, firstSeen = 1, lastSeen = 1,
            good = False, bads = 3\<rparr>,
          \<lparr>rid = id2, raddress = ''10.0.0.2'', rport = 6882, firstSeen = 2, lastSeen = 2,
            good = True, bads = 0\<rparr>]"
  by code_simp

lemma far_near: "xorDistance id2 id3 < xorDistance id4 id3"
  by code_simp

text \<open>
  C4 (as amended). \<^verbatim>\<open>findKClosest\<close> returns at most \<^verbatim>\<open>K\<close> contacts, in every state. In
  every state that a new node reaches it returns at most eight contacts, no two with the
  same id: the first eight contacts of the table's bucket, in the order in which their
  keys were first stored. (It does not order them by distance and does not leave out
  contacts whose \<^verbatim>\<open>good\<close> flag is false.)
\<close>

theorem kclosest_bounded_distinct:
  "(findKClosest target s = Inr ns \<longrightarrow> length ns \<le> K s) \<and>
   (findKClosest target (run h inps (create ident p)) = Inr ns' \<longrightarrow>
      length ns' \<le> 8 \<and> distinct (map rid ns') \<and>
      (\<exists>b. buckets (run h inps (create ident p)) = [One b] \<and> ns' = take 8 (getNodes b)))"
proof (intro conjI impI)
  assume "findKClosest target s = Inr ns"
  then show "length ns \<le> K s" by (rule findKClosest_length)
next
  let ?s = "run h inps (create ident p)"
  assume f: "findKClosest target ?s = Inr ns'"
  have k: "K ?s = 8" by (simp add: run_K create_def)
  from run_table_ok[OF create_table_ok, of h inps ident p]
  obtain b where b: "buckets ?s = [One b]" "distinct (map fst (nodes b))"
    "\<forall>(k, r) \<in> set (nodes b). k = toStr h (rid r)"
    unfolding table_ok_def by blast
  from findKClosest_single[OF b(1) f] k have ns: "ns' = take 8 (getNodes b)" by simp
  show "length ns' \<le> 8" using ns by simp
  have "distinct (map rid (getNodes b))"
    unfolding getNodes_def using b(2,3) by (rule keyed_distinct)
  then show "distinct (map rid ns')"
    unfolding ns by (simp add: take_map[symmetric] distinct_take)
  show "\<exists>b. buckets ?s = [One b] \<and> ns' = take 8 (getNodes b)"
    using b(1) ns by blast
qed

theorem kclosest_bounded_distinct_witness:
  "findKClosest id3 cursed_run
   = Inr [\<lparr>rid = id4, raddress = ''10.0.0.1'', rport = 6881, firstSeen = 1, lastSeen = 1,
            good = False, bads = 3\<rparr>,
          \<lparr>rid = id2, raddress = ''10.0.0.2'', rport = 6882, firstSeen = 2, lastSeen = 2,
            good = True, bads = 0\<rparr>] \<and>
   distinct [id4, id2] \<and>
   (\<exists>b. buckets cursed_run = [One b] \<and>
      [\<lparr>rid = id4, raddress = ''10.0.0.1'', rport = 6881, firstSeen = 1, lastSeen = 1,
            good = False, bads = 3\<rparr>,
          \<lparr>rid = id2, raddress = ''10.0.0.2'', rport = 6882, firstSeen = 2, lastSeen = 2,
            good = True, bads = 0\<rparr>] = take 8 (getNodes b))"
  using kclosest_bounded_distinct[of id3 cursed_run _ host0
      "[Message 1 [] (ping_from id4) peerA, Message 2 [] (ping_from id2) peerB,
        Curse 0 (ascii id4), Curse 0 (ascii id4), Curse 0 (ascii id4)]" id1 6881
      "[\<lparr>rid = id4, raddress = ''10.0.0.1'', rport = 6881, firstSeen = 1, lastSeen = 1,
            good = False, bads = 3\<rparr>,
          \<lparr>rid = id2, raddress = ''10.0.0.2'', rport = 6882, firstSeen = 2, lastSeen = 2,
            good = True, bads = 0\<rparr>]"]
    cursed_run_closest
  unfolding cursed_run_def[symmetric]
  by simp

text \<open>
  C4 as stated fails. In the run \<open>cursed_run\<close>, the closest contacts to \<open>id3\<close> are returned
  as the contact \<open>id4\<close> followed by the contact \<open>id2\<close>: the first has its \<^verbatim>\<open>good\<close> flag
  false, and it is farther from \<open>id3\<close> in XOR distance than the second.
\<close>

theorem kclosest_unsorted_with_bad:
  "findKClosest id3 cursed_run
   = Inr [\<lparr>rid = id4, raddress = ''10.0.0.1'', rport = 6881, firstSeen = 1, lastSeen = 1,
            good = False, bads = 3\<rparr>,
          \<lparr>rid = id2, raddress = ''10.0.0.2'', rport = 6882, firstSeen = 2, lastSeen = 2,
            good = True, bads = 0\<rparr>] \<and>
   xorDistance id2 id3 < xorDistance id4 id3"
  using cursed_run_closest far_near by blast

section \<open>Properties of the range arithmetic\<close>

lemma split_bounds_144: "split_bounds lo144 hi144 = Inr (lo144, pred_lo144)"
  by code_simp

lemma buf_val_144:
  "buf_val lo144 = 2 ^ 159" "buf_val hi144 = 2 ^ 159 + 2 ^ 144 - 1"
  "buf_val pred_lo144 = 2 ^ 159 - 1"
  by (simp_all add: buf_val_def lo144_def hi144_def pred_lo144_def)

text \<open>
  C3 (the code departs from the claim). Splitting the empty bucket with range
  \<open>[lo144, hi144]\<close>, that is \<open>[2^159, 2^159 + 2^144 - 1]\<close>, returns the head
  \<open>[2^159, 2^159 - 1]\<close> and the tail \<open>[2^159, 2^159 + 2^144 - 1]\<close>: the upper bound of the
  head is \<open>2^159 - 1\<close> and not \<open>\<lfloor>(lo + hi) / 2\<rfloor> = 2^159 + 2^143 - 1\<close>. The carry out of
  word 1 is added to word 0 and then lost in that word's shift, instead of entering
  word 1 from the left.
\<close>

theorem split_midpoint_wrong:
  "split ts 8 (Bucket 8 lo144 hi144) = Inr (Bucket 8 lo144 pred_lo144, Bucket 8 lo144 hi144)
   \<and> buf_val pred_lo144 = 2 ^ 159 - 1
   \<and> (buf_val lo144 + buf_val hi144) div 2 = 2 ^ 159 + 2 ^ 143 - 1"
proof -
  have "split ts 8 (Bucket 8 lo144 hi144)
        = Inr (Bucket 8 lo144 pred_lo144, Bucket 8 lo144 hi144)"
    by (simp add: split_def Bucket_def split_bounds_144)
  moreover have "(buf_val lo144 + buf_val hi144) div 2 = 2 ^ 159 + 2 ^ 143 - 1"
    by (simp add: buf_val_144)
  ultimately show ?thesis
    by (simp add: buf_val_144)
qed

end
